theory Spec2Isabelle
  imports Main "HOL-Library.Multiset"
begin

section \<open>Values, rows, errors\<close>

text \<open>
  A connection is identified by the order in which the constructor opened it.
  A Python value travelling through the driver is \<open>None\<close>, a \<open>bool\<close>, an \<open>int\<close>,
  a \<open>float\<close> or a \<open>str\<close>. A float is never computed with in this layer, only passed on, so it is
  kept as the pair \<open>(m, e)\<close> standing for \<open>m * 2 ^ e\<close>: \<open>42.50\<close> is \<open>PFloat (85, -1)\<close>.
  A row is the \<open>dict(row)\<close> of \<open>execute\<close>: column names with their values, in
  column order.
\<close>

type_synonym conn = nat

type_synonym pyfloat = "int \<times> int"

datatype pyval = PNone | PBool bool | PInt int | PFloat pyfloat | PStr string

type_synonym row = "(string \<times> pyval) list"

text \<open>
  The exceptions that reach this layer. \<open>DatabaseError\<close> stands for the driver's
  \<open>sqlite3.Error\<close> family, \<open>OverflowError\<close> is what the driver raises for an
  \<open>int\<close> it cannot bind, and \<open>OtherException\<close> stands for any other subclass of
  \<open>Exception\<close> a unit of work may raise; \<open>KeyboardInterrupt\<close>, \<open>SystemExit\<close> and
  \<open>GeneratorExit\<close> derive from \<open>BaseException\<close> only, so \<open>except Exception\<close>
  does not catch them.
\<close>

datatype py_error =
    RuntimeError string
  | TypeError
  | DatabaseError string
  | OverflowError string
  | OtherException string
  | KeyboardInterrupt
  | SystemExit
  | GeneratorExit

fun is_Exception :: "py_error \<Rightarrow> bool" where
  "is_Exception KeyboardInterrupt = False"
| "is_Exception SystemExit = False"
| "is_Exception GeneratorExit = False"
| "is_Exception _ = True"

record QueryResult =
  rows :: "row list"
  row_count :: int

record cursor =
  fetched :: "row list"
  rowcount :: int

section \<open>The state: pool, connections, datastore\<close>

text \<open>
  What the calls of a run leave behind, in order: the queue operations of the pool and
  the driver calls on a connection.
\<close>

datatype event =
    EvGet conn
  | EvGetTimeout nat
  | EvPut conn
  | EvExecute conn string "pyval list"
  | EvCommit conn
  | EvRollback conn
  | EvClose conn

text \<open>
  \<open>pool_created\<close> is \<open>_pool is not None\<close>; \<open>database_url\<close>, \<open>queue\<close> and
  \<open>maxsize\<close> are \<open>self._database_url\<close> and the \<open>Queue(maxsize=pool_size)\<close> in
  \<open>self._pool\<close> (first in, first out; the head leaves next). \<open>in_use\<close> lists the
  connections held in the local variable \<open>conn\<close> of a suspended \<open>acquire\<close>, between
  its \<open>get\<close> and its \<open>put\<close>. The datastore is the driver's: \<open>durable\<close> is what is
  committed, \<open>pending c\<close> the working copy of the transaction open on connection \<open>c\<close>,
  if one is. \<open>clock\<close> counts the seconds spent waiting.
\<close>

record 'db state =
  pool_created :: bool
  database_url :: string
  queue :: "conn list"
  maxsize :: int
  in_use :: "conn list"
  durable :: 'db
  pending :: "conn \<Rightarrow> 'db option"
  trace :: "event list"
  clock :: nat

text \<open>
  The driver is not part of the repository: what a statement with its bound parameters
  does to the datastore is a parameter. It raises, or gives the rows, the affected-row
  count and the datastore after the statement.
\<close>

type_synonym 'db driver = "string \<Rightarrow> pyval list \<Rightarrow> 'db \<Rightarrow> py_error + (row list \<times> int \<times> 'db)"

record config =
  DATABASE_URL :: string
  POOL_SIZE :: int

subsection \<open>The queue\<close>

text \<open>
  \<open>Queue.get(timeout=t)\<close>: the head at once when there is one; on an empty queue the
  caller waits \<open>t\<close> seconds and \<open>Empty\<close> is raised (\<open>None\<close> here). The calling
  thread is the only one that runs during its call; other threads are the steps of
  \<open>step\<close> below.
\<close>

definition queue_get :: "nat \<Rightarrow> 'db state \<Rightarrow> conn option \<times> 'db state" where
  "queue_get timeout s =
     (case queue s of
        [] \<Rightarrow> (None, s\<lparr>trace := trace s @ [EvGetTimeout timeout], clock := clock s + timeout\<rparr>)
      | c # rest \<Rightarrow> (Some c, s\<lparr>queue := rest, trace := trace s @ [EvGet c]\<rparr>))"

text \<open>A \<open>Queue\<close> with \<open>maxsize <= 0\<close> is unbounded.\<close>

definition queue_full :: "'db state \<Rightarrow> bool" where
  "queue_full s = (0 < maxsize s \<and> maxsize s \<le> int (length (queue s)))"

text \<open>\<open>Queue.put\<close> without a timeout waits for ever on a full queue: \<open>None\<close>.\<close>

definition queue_put :: "conn \<Rightarrow> 'db state \<Rightarrow> 'db state option" where
  "queue_put c s =
     (if queue_full s then None
      else Some (s\<lparr>queue := queue s @ [c], trace := trace s @ [EvPut c]\<rparr>))"

subsection \<open>The driver's connection\<close>

text \<open>
  A connection reads the durable datastore, or its own working copy once a statement has
  run on it; \<open>commit\<close> makes the working copy durable, \<open>rollback\<close> and \<open>close\<close>
  drop it. The three calls are taken to succeed.
\<close>

definition conn_view :: "conn \<Rightarrow> 'db state \<Rightarrow> 'db" where
  "conn_view c s = (case pending s c of None \<Rightarrow> durable s | Some d \<Rightarrow> d)"

definition conn_commit :: "conn \<Rightarrow> 'db state \<Rightarrow> 'db state" where
  "conn_commit c s =
     s\<lparr>durable := conn_view c s, pending := (pending s)(c := None),
       trace := trace s @ [EvCommit c]\<rparr>"

definition conn_rollback :: "conn \<Rightarrow> 'db state \<Rightarrow> 'db state" where
  "conn_rollback c s =
     s\<lparr>pending := (pending s)(c := None), trace := trace s @ [EvRollback c]\<rparr>"

definition conn_close :: "conn \<Rightarrow> 'db state \<Rightarrow> 'db state" where
  "conn_close c s =
     s\<lparr>pending := (pending s)(c := None), trace := trace s @ [EvClose c]\<rparr>"

text \<open>
  \<open>conn.execute(sql, params)\<close>: the statement runs on the connection's view of the
  datastore; a statement that fails changes nothing.
\<close>

definition conn_execute ::
  "'db driver \<Rightarrow> conn \<Rightarrow> string \<Rightarrow> pyval list \<Rightarrow> 'db state \<Rightarrow> (py_error + cursor) \<times> 'db state" where
  "conn_execute drv c sql params s =
     (let s1 = s\<lparr>trace := trace s @ [EvExecute c sql params]\<rparr>
      in case drv sql params (conn_view c s) of
           Inl e \<Rightarrow> (Inl e, s1)
         | Inr (rs, n, d) \<Rightarrow>
             (Inr \<lparr>fetched = rs, rowcount = n\<rparr>, s1\<lparr>pending := (pending s)(c \<mapsto> d)\<rparr>))"

text \<open>
  \<open>conn.executemany(sql, params_list)\<close>. The driver compiles the statement first, which
  may raise, and refuses a statement that only reads before the first tuple. Otherwise
  the statement runs once per tuple, in order, up to the first that fails. For a data
  modification statement (\<open>INSERT\<close>, \<open>UPDATE\<close>, \<open>DELETE\<close>, \<open>REPLACE\<close>) the
  cursor's count is the sum of the counts; for a statement of another kind it stays
  \<open>-1\<close>. What the driver makes of a statement text is a parameter, as the driver is.
\<close>

datatype stmt_kind = ReadOnly | Dml | Other

type_synonym compiler = "string \<Rightarrow> py_error + stmt_kind"




section \<open>ConnectionPool\<close>

text \<open>
  The loop of \<open>__init__\<close>: the \<open>k\<close>-th round opens connection \<open>k\<close> and puts it at the
  back of the queue, which has room for it. \<open>range(pool_size)\<close> is empty for a
  \<open>pool_size\<close> below 1. \<open>sqlite3.connect\<close> is taken to succeed.
\<close>

primrec connect_all :: "nat \<Rightarrow> conn list" where
  "connect_all 0 = []"
| "connect_all (Suc k) = connect_all k @ [k]"

definition ConnectionPool_init :: "string \<Rightarrow> int \<Rightarrow> 'db state \<Rightarrow> 'db state" where
  "ConnectionPool_init url pool_size s =
     s\<lparr>database_url := url, queue := connect_all (nat pool_size),
       maxsize := pool_size, in_use := []\<rparr>"

text \<open>
  The message of the \<open>RuntimeError\<close>; its dash is U+2014, three bytes in UTF-8.
\<close>

definition POOL_EXHAUSTED :: string where
  "POOL_EXHAUSTED =
     ''Connection pool exhausted '' @ [CHR 0xE2, CHR 0x80, CHR 0x94] @
     '' no available connections.''"

text \<open>Lines 36 to 39 of \<open>acquire\<close>: the wait, and the error when it times out.\<close>

definition acquire_enter :: "'db state \<Rightarrow> (py_error + conn) \<times> 'db state" where
  "acquire_enter s =
     (case queue_get 5 s of
        (None, s1) \<Rightarrow> (Inl (RuntimeError POOL_EXHAUSTED), s1)
      | (Some c, s1) \<Rightarrow> (Inr c, s1\<lparr>in_use := c # in_use s1\<rparr>))"

text \<open>
  Lines 40 to 48: what happens when the unit of work leaves the \<open>with\<close> block with
  \<open>outcome\<close>, a value (also by an early \<open>return\<close>) or an exception. \<open>except Exception\<close>
  rolls back and raises again, \<open>else\<close> commits, \<open>finally\<close> puts the connection back.
\<close>

definition acquire_exit ::
  "conn \<Rightarrow> py_error + 'a \<Rightarrow> 'db state \<Rightarrow> ((py_error + 'a) \<times> 'db state) option" where
  "acquire_exit c outcome s =
     (let s1 = (case outcome of
                  Inl e \<Rightarrow> if is_Exception e then conn_rollback c s else s
                | Inr v \<Rightarrow> conn_commit c s)
      in case queue_put c s1 of
           None \<Rightarrow> None
         | Some s2 \<Rightarrow> Some (outcome, s2\<lparr>in_use := remove1 c (in_use s2)\<rparr>))"

text \<open>
  \<open>with pool.acquire() as conn: body\<close>. The result is \<open>None\<close> when the call never
  returns.
\<close>

definition acquire ::
  "(conn \<Rightarrow> 'db state \<Rightarrow> (py_error + 'a) \<times> 'db state) \<Rightarrow> 'db state
     \<Rightarrow> ((py_error + 'a) \<times> 'db state) option" where
  "acquire body s =
     (case acquire_enter s of
        (Inl e, s1) \<Rightarrow> Some (Inl e, s1)
      | (Inr c, s1) \<Rightarrow> (case body c s1 of (outcome, s2) \<Rightarrow> acquire_exit c outcome s2))"

text \<open>
  \<open>close_all\<close>: while the queue is not empty, take its head without waiting and close
  it.
\<close>

function close_all :: "'db state \<Rightarrow> 'db state" where
  "close_all s =
     (case queue s of
        [] \<Rightarrow> s
      | c # rest \<Rightarrow> close_all (conn_close c (s\<lparr>queue := rest, trace := trace s @ [EvGet c]\<rparr>)))"
  by pat_completeness auto
termination
  by (relation "measure (\<lambda>s. length (queue s))") (auto simp: conn_close_def)

text \<open>
  \<open>get_pool\<close>: the pool of the process, made on the first call from \<open>DATABASE_URL\<close>
  and \<open>POOL_SIZE\<close>.
\<close>

definition get_pool :: "config \<Rightarrow> 'db state \<Rightarrow> 'db state" where
  "get_pool cfg s =
     (if pool_created s then s
      else (ConnectionPool_init (DATABASE_URL cfg) (POOL_SIZE cfg) s)\<lparr>pool_created := True\<rparr>)"

section \<open>Query helpers\<close>

text \<open>
  The body of the \<open>with\<close> block returns from inside it: the value is the outcome the
  block is left with.
\<close>

definition execute ::
  "config \<Rightarrow> 'db driver \<Rightarrow> string \<Rightarrow> pyval list \<Rightarrow> 'db state
     \<Rightarrow> ((py_error + QueryResult) \<times> 'db state) option" where
  "execute cfg drv sql params s =
     acquire
       (\<lambda>c s1. case conn_execute drv c sql params s1 of
                 (Inl e, s2) \<Rightarrow> (Inl e, s2)
               | (Inr cur, s2) \<Rightarrow> (Inr \<lparr>rows = fetched cur, row_count = rowcount cur\<rparr>, s2))
       (get_pool cfg s)"


section \<open>Repository\<close>

text \<open>
  A dataclass checks no type: a field holds whatever value the constructor is given.
  The fields carry the record's initial, since \<open>id\<close> and \<open>user_id\<close> belong to
  both records.
\<close>

record UserRecord =
  u_id :: pyval
  u_username :: pyval
  u_email :: pyval
  u_password_hash :: pyval
  u_is_active :: pyval

record OrderRecord =
  o_id :: pyval
  o_user_id :: pyval
  o_total_amount :: pyval
  o_status :: pyval
  o_created_at :: pyval

definition UserRecord_fields :: "string list" where
  "UserRecord_fields = [''id'', ''username'', ''email'', ''password_hash'', ''is_active'']"

definition OrderRecord_fields :: "string list" where
  "OrderRecord_fields = [''id'', ''user_id'', ''total_amount'', ''status'', ''created_at'']"

text \<open>
  \<open>UserRecord(**row)\<close>: the generated \<open>__init__\<close> raises \<open>TypeError\<close> on a keyword
  that is no field and on a field without a keyword; otherwise every field is the
  row's value.
\<close>

definition UserRecord_init :: "row \<Rightarrow> py_error + UserRecord" where
  "UserRecord_init r =
     (if \<not> set (map fst r) \<subseteq> set UserRecord_fields then Inl TypeError
      else
       (case map_of r ''id'' of None \<Rightarrow> Inl TypeError | Some a \<Rightarrow>
       (case map_of r ''username'' of None \<Rightarrow> Inl TypeError | Some b \<Rightarrow>
       (case map_of r ''email'' of None \<Rightarrow> Inl TypeError | Some c \<Rightarrow>
       (case map_of r ''password_hash'' of None \<Rightarrow> Inl TypeError | Some d \<Rightarrow>
       (case map_of r ''is_active'' of None \<Rightarrow> Inl TypeError | Some e \<Rightarrow>
          Inr \<lparr>u_id = a, u_username = b, u_email = c, u_password_hash = d, u_is_active = e\<rparr>))))))"

definition OrderRecord_init :: "row \<Rightarrow> py_error + OrderRecord" where
  "OrderRecord_init r =
     (if \<not> set (map fst r) \<subseteq> set OrderRecord_fields then Inl TypeError
      else
       (case map_of r ''id'' of None \<Rightarrow> Inl TypeError | Some a \<Rightarrow>
       (case map_of r ''user_id'' of None \<Rightarrow> Inl TypeError | Some b \<Rightarrow>
       (case map_of r ''total_amount'' of None \<Rightarrow> Inl TypeError | Some c \<Rightarrow>
       (case map_of r ''status'' of None \<Rightarrow> Inl TypeError | Some d \<Rightarrow>
       (case map_of r ''created_at'' of None \<Rightarrow> Inl TypeError | Some e \<Rightarrow>
          Inr \<lparr>o_id = a, o_user_id = b, o_total_amount = c, o_status = d, o_created_at = e\<rparr>))))))"

text \<open>The list comprehension of \<open>get_orders_by_user\<close>: the first row that fails ends it.\<close>

fun OrderRecord_all :: "row list \<Rightarrow> py_error + OrderRecord list" where
  "OrderRecord_all [] = Inr []"
| "OrderRecord_all (r # rs) =
     (case OrderRecord_init r of
        Inl e \<Rightarrow> Inl e
      | Inr x \<Rightarrow> (case OrderRecord_all rs of Inl e \<Rightarrow> Inl e | Inr xs \<Rightarrow> Inr (x # xs)))"

definition get_user_by_id ::
  "config \<Rightarrow> 'db driver \<Rightarrow> int \<Rightarrow> 'db state \<Rightarrow> ((py_error + UserRecord option) \<times> 'db state) option" where
  "get_user_by_id cfg drv user_id s =
     (case execute cfg drv
             ''SELECT id, username, email, password_hash, is_active FROM users WHERE id = ?''
             [PInt user_id] s of
        None \<Rightarrow> None
      | Some (Inl e, s1) \<Rightarrow> Some (Inl e, s1)
      | Some (Inr result, s1) \<Rightarrow>
          (case rows result of
             [] \<Rightarrow> Some (Inr None, s1)
           | r # _ \<Rightarrow>
               (case UserRecord_init r of
                  Inl e \<Rightarrow> Some (Inl e, s1)
                | Inr u \<Rightarrow> Some (Inr (Some u), s1))))"

definition get_user_by_username ::
  "config \<Rightarrow> 'db driver \<Rightarrow> string \<Rightarrow> 'db state \<Rightarrow> ((py_error + UserRecord option) \<times> 'db state) option" where
  "get_user_by_username cfg drv username s =
     (case execute cfg drv
             ''SELECT id, username, email, password_hash, is_active FROM users WHERE username = ?''
             [PStr username] s of
        None \<Rightarrow> None
      | Some (Inl e, s1) \<Rightarrow> Some (Inl e, s1)
      | Some (Inr result, s1) \<Rightarrow>
          (case rows result of
             [] \<Rightarrow> Some (Inr None, s1)
           | r # _ \<Rightarrow>
               (case UserRecord_init r of
                  Inl e \<Rightarrow> Some (Inl e, s1)
                | Inr u \<Rightarrow> Some (Inr (Some u), s1))))"

definition create_user ::
  "config \<Rightarrow> 'db driver \<Rightarrow> string \<Rightarrow> string \<Rightarrow> string \<Rightarrow> 'db state
     \<Rightarrow> ((py_error + int) \<times> 'db state) option" where
  "create_user cfg drv username email password_hash s =
     (case execute cfg drv
             ''INSERT INTO users (username, email, password_hash, is_active) VALUES (?, ?, ?, 1)''
             [PStr username, PStr email, PStr password_hash] s of
        None \<Rightarrow> None
      | Some (Inl e, s1) \<Rightarrow> Some (Inl e, s1)
      | Some (Inr result, s1) \<Rightarrow> Some (Inr (row_count result), s1))"

definition deactivate_user ::
  "config \<Rightarrow> 'db driver \<Rightarrow> int \<Rightarrow> 'db state \<Rightarrow> ((py_error + bool) \<times> 'db state) option" where
  "deactivate_user cfg drv user_id s =
     (case execute cfg drv ''UPDATE users SET is_active = 0 WHERE id = ?'' [PInt user_id] s of
        None \<Rightarrow> None
      | Some (Inl e, s1) \<Rightarrow> Some (Inl e, s1)
      | Some (Inr result, s1) \<Rightarrow> Some (Inr (row_count result > 0), s1))"

definition get_orders_by_user ::
  "config \<Rightarrow> 'db driver \<Rightarrow> int \<Rightarrow> 'db state \<Rightarrow> ((py_error + OrderRecord list) \<times> 'db state) option" where
  "get_orders_by_user cfg drv user_id s =
     (case execute cfg drv
             ''SELECT id, user_id, total_amount, status, created_at FROM orders WHERE user_id = ?''
             [PInt user_id] s of
        None \<Rightarrow> None
      | Some (Inl e, s1) \<Rightarrow> Some (Inl e, s1)
      | Some (Inr result, s1) \<Rightarrow> Some (OrderRecord_all (rows result), s1))"

definition get_order_by_id ::
  "config \<Rightarrow> 'db driver \<Rightarrow> int \<Rightarrow> 'db state \<Rightarrow> ((py_error + OrderRecord option) \<times> 'db state) option" where
  "get_order_by_id cfg drv order_id s =
     (case execute cfg drv
             ''SELECT id, user_id, total_amount, status, created_at FROM orders WHERE id = ?''
             [PInt order_id] s of
        None \<Rightarrow> None
      | Some (Inl e, s1) \<Rightarrow> Some (Inl e, s1)
      | Some (Inr result, s1) \<Rightarrow>
          (case rows result of
             [] \<Rightarrow> Some (Inr None, s1)
           | r # _ \<Rightarrow>
               (case OrderRecord_init r of
                  Inl e \<Rightarrow> Some (Inl e, s1)
                | Inr x \<Rightarrow> Some (Inr (Some x), s1))))"

definition create_order ::
  "config \<Rightarrow> 'db driver \<Rightarrow> int \<Rightarrow> pyfloat \<Rightarrow> 'db state \<Rightarrow> ((py_error + int) \<times> 'db state) option" where
  "create_order cfg drv user_id total_amount s =
     (case execute cfg drv
             ''INSERT INTO orders (user_id, total_amount, status) VALUES (?, ?, 'pending')''
             [PInt user_id, PFloat total_amount] s of
        None \<Rightarrow> None
      | Some (Inl e, s1) \<Rightarrow> Some (Inl e, s1)
      | Some (Inr result, s1) \<Rightarrow> Some (Inr (row_count result), s1))"

definition update_order_status ::
  "config \<Rightarrow> 'db driver \<Rightarrow> int \<Rightarrow> string \<Rightarrow> 'db state \<Rightarrow> ((py_error + bool) \<times> 'db state) option" where
  "update_order_status cfg drv order_id status s =
     (case execute cfg drv ''UPDATE orders SET status = ? WHERE id = ?''
             [PStr status, PInt order_id] s of
        None \<Rightarrow> None
      | Some (Inl e, s1) \<Rightarrow> Some (Inl e, s1)
      | Some (Inr result, s1) \<Rightarrow> Some (Inr (row_count result > 0), s1))"

section \<open>Runs with several threads\<close>

text \<open>
  One step of a run: some thread calls \<open>acquire\<close> and is granted a connection or
  times out; a thread that holds a connection runs a statement on it; a thread that
  holds a connection leaves its \<open>with\<close> block, with any outcome. Construction and
  \<open>close_all\<close> are not steps.
\<close>

inductive step :: "'db driver \<Rightarrow> 'db state \<Rightarrow> 'db state \<Rightarrow> bool" for drv :: "'db driver" where
  step_enter: "step drv s (snd (acquire_enter s))"
| step_work: "c \<in> set (in_use s) \<Longrightarrow> step drv s (snd (conn_execute drv c sql params s))"
| step_exit: "c \<in> set (in_use s) \<Longrightarrow> acquire_exit c (outcome :: py_error + unit) s = Some (r, s')
    \<Longrightarrow> step drv s s'"

text \<open>The bound of the queue leaves room for what it holds.\<close>

definition pool_ok :: "'db state \<Rightarrow> bool" where
  "pool_ok s = (maxsize s \<le> 0 \<or> int (length (queue s)) \<le> maxsize s)"

text \<open>The driver calls of a trace, in order: the statement text and its parameters.\<close>

fun driver_calls :: "event list \<Rightarrow> (string \<times> pyval list) list" where
  "driver_calls [] = []"
| "driver_calls (EvExecute c sql params # evs) = (sql, params) # driver_calls evs"
| "driver_calls (_ # evs) = driver_calls evs"

section \<open>A datastore for the statements of the repository\<close>

text \<open>
  Modelled from the spec: the schema of the tables \<open>users\<close> and \<open>orders\<close> and the
  SQL engine behind the driver are not in the repository. This datastore has the two
  tables with the columns the statements and the spec's data model name, keeps a value
  as it is given, numbers a new row after the largest \<open>id\<close>, and fills
  \<open>created_at\<close> with \<open>stamp\<close>. A \<open>WHERE col = ?\<close> matches the rows whose column
  equals the parameter, none for \<open>NULL\<close>; a \<open>SELECT\<close> reports the count \<open>-1\<close>, an
  \<open>UPDATE\<close> the number of rows matched. It knows the eight statements of the
  repository and rejects any other, and a parameter list of the wrong length.
\<close>

record store =
  users :: "row list"
  orders :: "row list"
  stamp :: pyval

definition sql_match :: "string \<Rightarrow> pyval \<Rightarrow> row \<Rightarrow> bool" where
  "sql_match col v r = (v \<noteq> PNone \<and> map_of r col = Some v)"

definition select_cols :: "string list \<Rightarrow> row \<Rightarrow> row" where
  "select_cols cols r = map (\<lambda>k. (k, case map_of r k of None \<Rightarrow> PNone | Some v \<Rightarrow> v)) cols"

definition set_col :: "string \<Rightarrow> pyval \<Rightarrow> row \<Rightarrow> row" where
  "set_col col v r = map (\<lambda>(k, x). if k = col then (k, v) else (k, x)) r"

definition next_id :: "row list \<Rightarrow> int" where
  "next_id rs =
     1 + fold (\<lambda>r m. case map_of r ''id'' of Some (PInt i) \<Rightarrow> max i m | _ \<Rightarrow> m) rs 0"

definition bad_binding :: "py_error + (row list \<times> int \<times> store)" where
  "bad_binding = Inl (DatabaseError ''Incorrect number of bindings supplied.'')"

definition sqlite_run :: "store driver" where
  "sqlite_run sql params db =
     (if sql = ''SELECT id, username, email, password_hash, is_active FROM users WHERE id = ?'' then
        (case params of
           [v] \<Rightarrow> Inr (map (select_cols [''id'', ''username'', ''email'', ''password_hash'', ''is_active''])
                          (filter (sql_match ''id'' v) (users db)), - 1, db)
         | _ \<Rightarrow> bad_binding)
      else if sql = ''SELECT id, username, email, password_hash, is_active FROM users WHERE username = ?'' then
        (case params of
           [v] \<Rightarrow> Inr (map (select_cols [''id'', ''username'', ''email'', ''password_hash'', ''is_active''])
                          (filter (sql_match ''username'' v) (users db)), - 1, db)
         | _ \<Rightarrow> bad_binding)
      else if sql = ''INSERT INTO users (username, email, password_hash, is_active) VALUES (?, ?, ?, 1)'' then
        (case params of
           [a, b, c] \<Rightarrow>
             Inr ([], 1,
                  db\<lparr>users := users db @
                     [[(''id'', PInt (next_id (users db))), (''username'', a), (''email'', b),
                       (''password_hash'', c), (''is_active'', PInt 1)]]\<rparr>)
         | _ \<Rightarrow> bad_binding)
      else if sql = ''UPDATE users SET is_active = 0 WHERE id = ?'' then
        (case params of
           [v] \<Rightarrow>
             Inr ([], int (length (filter (sql_match ''id'' v) (users db))),
                  db\<lparr>users := map (\<lambda>r. if sql_match ''id'' v r then set_col ''is_active'' (PInt 0) r else r)
                                  (users db)\<rparr>)
         | _ \<Rightarrow> bad_binding)
      else if sql = ''SELECT id, user_id, total_amount, status, created_at FROM orders WHERE user_id = ?'' then
        (case params of
           [v] \<Rightarrow> Inr (map (select_cols [''id'', ''user_id'', ''total_amount'', ''status'', ''created_at''])
                          (filter (sql_match ''user_id'' v) (orders db)), - 1, db)
         | _ \<Rightarrow> bad_binding)
      else if sql = ''SELECT id, user_id, total_amount, status, created_at FROM orders WHERE id = ?'' then
        (case params of
           [v] \<Rightarrow> Inr (map (select_cols [''id'', ''user_id'', ''total_amount'', ''status'', ''created_at''])
                          (filter (sql_match ''id'' v) (orders db)), - 1, db)
         | _ \<Rightarrow> bad_binding)
      else if sql = ''INSERT INTO orders (user_id, total_amount, status) VALUES (?, ?, 'pending')'' then
        (case params of
           [a, b] \<Rightarrow>
             Inr ([], 1,
                  db\<lparr>orders := orders db @
                     [[(''id'', PInt (next_id (orders db))), (''user_id'', a), (''total_amount'', b),
                       (''status'', PStr ''pending''), (''created_at'', stamp db)]]\<rparr>)
         | _ \<Rightarrow> bad_binding)
      else if sql = ''UPDATE orders SET status = ? WHERE id = ?'' then
        (case params of
           [a, v] \<Rightarrow>
             Inr ([], int (length (filter (sql_match ''id'' v) (orders db))),
                  db\<lparr>orders := map (\<lambda>r. if sql_match ''id'' v r then set_col ''status'' a r else r)
                                   (orders db)\<rparr>)
         | _ \<Rightarrow> bad_binding)
      else Inl (DatabaseError ''syntax error''))"

text \<open>
  What the engine makes of the statements of the repository when it compiles them: the
  four queries only read, the four others modify data; any other text does not compile.
\<close>

definition sqlite_compile :: compiler where
  "sqlite_compile sql =
     (if sql \<in> set
           [''SELECT id, username, email, password_hash, is_active FROM users WHERE id = ?'',
            ''SELECT id, username, email, password_hash, is_active FROM users WHERE username = ?'',
            ''SELECT id, user_id, total_amount, status, created_at FROM orders WHERE user_id = ?'',
            ''SELECT id, user_id, total_amount, status, created_at FROM orders WHERE id = ?'']
      then Inr ReadOnly
      else if sql \<in> set
           [''INSERT INTO users (username, email, password_hash, is_active) VALUES (?, ?, ?, 1)'',
            ''UPDATE users SET is_active = 0 WHERE id = ?'',
            ''INSERT INTO orders (user_id, total_amount, status) VALUES (?, ?, 'pending')'',
            ''UPDATE orders SET status = ? WHERE id = ?'']
      then Inr Dml
      else Inl (DatabaseError ''syntax error''))"

text \<open>
  The driver binds the parameters before the statement runs. An \<open>int\<close> outside the
  signed 64-bit range of the engine's \<open>INTEGER\<close> is refused with \<open>OverflowError\<close>;
  every other value of a row binds. \<open>sqlite3_run\<close> is the datastore behind that check.
\<close>

definition in_int64 :: "int \<Rightarrow> bool" where
  "in_int64 i = (- 9223372036854775808 \<le> i \<and> i \<le> 9223372036854775807)"

fun bindable :: "pyval \<Rightarrow> bool" where
  "bindable (PInt i) = in_int64 i"
| "bindable _ = True"

definition INT_TOO_LARGE :: string where
  "INT_TOO_LARGE = ''Python int too large to convert to SQLite INTEGER''"

definition bind_checked :: "'db driver \<Rightarrow> 'db driver" where
  "bind_checked drv sql params d =
     (if list_all bindable params then drv sql params d
      else Inl (OverflowError INT_TOO_LARGE))"

definition sqlite3_run :: "store driver" where
  "sqlite3_run = bind_checked sqlite_run"

subsection \<open>Sample states\<close>

text \<open>The process before the first call: no pool yet, nothing waited, nothing logged.\<close>

definition boot :: "'db \<Rightarrow> 'db state" where
  "boot d =
     \<lparr>pool_created = False, database_url = [], queue = [], maxsize = 0, in_use = [],
      durable = d, pending = (\<lambda>c. None), trace = [], clock = 0\<rparr>"

definition store0 :: store where
  "store0 = \<lparr>users = [], orders = [], stamp = PStr ''2024-01-01 00:00:00''\<rparr>"

definition cfg2 :: config where
  "cfg2 = \<lparr>DATABASE_URL = ''app.db'', POOL_SIZE = 2\<rparr>"

text \<open>
  What the constructor establishes and the steps keep: the idle and the held connections
  together are the ones the constructor opened, and the bound is the constructor's.
\<close>

definition pool_inv :: "int \<Rightarrow> 'db state \<Rightarrow> bool" where
  "pool_inv n s = (mset (queue s @ in_use s) = mset (connect_all (nat n)) \<and> maxsize s = n)"


text \<open>
  What the driver answers to a statement that \<open>execute\<close> would issue in state \<open>s\<close>:
  the rows and the count. \<open>None\<close> when no connection is idle, when the queue has no
  room to take the connection back, or when the driver raises.
\<close>

definition driver_answer ::
  "config \<Rightarrow> 'db driver \<Rightarrow> string \<Rightarrow> pyval list \<Rightarrow> 'db state \<Rightarrow> (row list \<times> int) option" where
  "driver_answer cfg drv sql params s =
     (let p = get_pool cfg s
      in case queue p of
           [] \<Rightarrow> None
         | c # rest \<Rightarrow>
             if pool_ok p
             then (case drv sql params (conn_view c p) of
                     Inl e \<Rightarrow> None
                   | Inr (rs, n, d) \<Rightarrow> Some (rs, n))
             else None)"

text \<open>
  The driver calls in the trace a call leaves, and what they are for a call that issues
  one statement: those of before, and the statement with its parameters when a
  connection is granted.
\<close>

definition calls_of :: "('r \<times> 'db state) option \<Rightarrow> (string \<times> pyval list) list option" where
  "calls_of res = map_option (\<lambda>(r, s). driver_calls (trace s)) res"

definition one_call ::
  "config \<Rightarrow> 'db state \<Rightarrow> string \<Rightarrow> pyval list \<Rightarrow> (string \<times> pyval list) list option" where
  "one_call cfg s sql params =
     (let p = get_pool cfg s
      in case queue p of
           [] \<Rightarrow> Some (driver_calls (trace p))
         | c # rest \<Rightarrow>
             if queue_full (p\<lparr>queue := rest\<rparr>) then None
             else Some (driver_calls (trace p) @ [(sql, params)]))"

text \<open>The commits and rollbacks of a trace.\<close>

definition txn_ends :: "event list \<Rightarrow> event list" where
  "txn_ends evs = filter (\<lambda>ev. case ev of EvCommit c \<Rightarrow> True | EvRollback c \<Rightarrow> True | _ \<Rightarrow> False) evs"

text \<open>
  A pool of two made by \<open>get_pool\<close>; both connections taken by two calls of
  \<open>acquire\<close>; the pool after \<open>close_all\<close>.
\<close>

definition pool2 :: "store state" where
  "pool2 = get_pool cfg2 (boot store0)"

definition both_held :: "store state" where
  "both_held = snd (acquire_enter (snd (acquire_enter pool2)))"

definition closed2 :: "store state" where
  "closed2 = close_all pool2"

text \<open>
  Two units of work: one inserts an order and is interrupted from the keyboard; the other
  inserts the order and returns the cursor's count.
\<close>

definition interrupted_work :: "conn \<Rightarrow> store state \<Rightarrow> (py_error + unit) \<times> store state" where
  "interrupted_work c s =
     (Inl KeyboardInterrupt,
      snd (conn_execute sqlite_run c
             ''INSERT INTO orders (user_id, total_amount, status) VALUES (?, ?, 'pending')''
             [PInt 7, PFloat (85, - 1)] s))"

definition insert_order_work :: "conn \<Rightarrow> store state \<Rightarrow> (py_error + int) \<times> store state" where
  "insert_order_work c s =
     (case conn_execute sqlite_run c
             ''INSERT INTO orders (user_id, total_amount, status) VALUES (?, ?, 'pending')''
             [PInt 7, PFloat (85, - 1)] s of
        (Inl e, s1) \<Rightarrow> (Inl e, s1)
      | (Inr cur, s1) \<Rightarrow> (Inr (rowcount cur), s1))"

text \<open>
  A datastore with one user and one order.
\<close>

definition store1 :: store where
  "store1 =
     \<lparr>users = [[(''id'', PInt 1), (''username'', PStr ''alice''), (''email'', PStr ''alice@example.com''),
                (''password_hash'', PStr ''x''), (''is_active'', PInt 1)]],
      orders = [[(''id'', PInt 1), (''user_id'', PInt 7), (''total_amount'', PFloat (85, - 1)),
                 (''status'', PStr ''pending''), (''created_at'', PStr ''2024-01-01 00:00:00'')]],
      stamp = PStr ''2024-01-02 00:00:00''\<rparr>"

text \<open>
  The record holds the row's value of every column of its fields.
\<close>

definition UserRecord_of :: "row \<Rightarrow> UserRecord \<Rightarrow> bool" where
  "UserRecord_of r u =
     (map_of r ''id'' = Some (u_id u) \<and> map_of r ''username'' = Some (u_username u) \<and>
      map_of r ''email'' = Some (u_email u) \<and> map_of r ''password_hash'' = Some (u_password_hash u) \<and>
      map_of r ''is_active'' = Some (u_is_active u))"

definition OrderRecord_of :: "row \<Rightarrow> OrderRecord \<Rightarrow> bool" where
  "OrderRecord_of r x =
     (map_of r ''id'' = Some (o_id x) \<and> map_of r ''user_id'' = Some (o_user_id x) \<and>
      map_of r ''total_amount'' = Some (o_total_amount x) \<and> map_of r ''status'' = Some (o_status x) \<and>
      map_of r ''created_at'' = Some (o_created_at x))"

text \<open>
  The rows the datastore gives for the user and the order of \<open>store1\<close>.
\<close>

definition alice_row :: row where
  "alice_row = [(''id'', PInt 1), (''username'', PStr ''alice''), (''email'', PStr ''alice@example.com''),
                (''password_hash'', PStr ''x''), (''is_active'', PInt 1)]"

definition order1_row :: row where
  "order1_row = [(''id'', PInt 1), (''user_id'', PInt 7), (''total_amount'', PFloat (85, - 1)),
                 (''status'', PStr ''pending''), (''created_at'', PStr ''2024-01-01 00:00:00'')]"

text \<open>
  The annotations of the dataclass fields, and \<open>isinstance\<close> for the values of a row
  (a \<open>bool\<close> is an \<open>int\<close>). A row is typed when every annotated column is there
  with a value of its type.
\<close>

datatype pytype = TInt | TStr | TFloat | TBool

fun isinstance :: "pyval \<Rightarrow> pytype \<Rightarrow> bool" where
  "isinstance (PBool b) TBool = True"
| "isinstance (PBool b) TInt = True"
| "isinstance (PInt i) TInt = True"
| "isinstance (PFloat f) TFloat = True"
| "isinstance (PStr s) TStr = True"
| "isinstance _ _ = False"

definition UserRecord_types :: "(string \<times> pytype) list" where
  "UserRecord_types =
     [(''id'', TInt), (''username'', TStr), (''email'', TStr), (''password_hash'', TStr),
      (''is_active'', TBool)]"

definition OrderRecord_types :: "(string \<times> pytype) list" where
  "OrderRecord_types =
     [(''id'', TInt), (''user_id'', TInt), (''total_amount'', TFloat), (''status'', TStr),
      (''created_at'', TStr)]"

definition row_typed :: "(string \<times> pytype) list \<Rightarrow> row \<Rightarrow> bool" where
  "row_typed types r =
     list_all (\<lambda>(k, t). case map_of r k of None \<Rightarrow> False | Some v \<Rightarrow> isinstance v t) types"

text \<open>
  A row with all the columns of a user, whose \<open>username\<close> is an integer; a row
  with two columns only; a driver that answers every statement with that row.
\<close>

definition mistyped_row :: row where
  "mistyped_row =
     [(''id'', PInt 1), (''username'', PInt 5), (''email'', PStr ''alice@example.com''),
      (''password_hash'', PStr ''x''), (''is_active'', PBool True)]"

definition short_row :: row where
  "short_row = [(''id'', PInt 1), (''username'', PStr ''alice'')]"

definition short_driver :: "unit driver" where
  "short_driver sql params d = Inr ([short_row], - 1, d)"




text \<open>
  The record of a row of the datastore's \<open>orders\<close>; a column the row lacks
  reads as \<open>NULL\<close>.
\<close>

definition order_of_row :: "row \<Rightarrow> OrderRecord" where
  "order_of_row r =
     \<lparr>o_id = (case map_of r ''id'' of None \<Rightarrow> PNone | Some v \<Rightarrow> v),
      o_user_id = (case map_of r ''user_id'' of None \<Rightarrow> PNone | Some v \<Rightarrow> v),
      o_total_amount = (case map_of r ''total_amount'' of None \<Rightarrow> PNone | Some v \<Rightarrow> v),
      o_status = (case map_of r ''status'' of None \<Rightarrow> PNone | Some v \<Rightarrow> v),
      o_created_at = (case map_of r ''created_at'' of None \<Rightarrow> PNone | Some v \<Rightarrow> v)\<rparr>"

text \<open>
  The record of a row of the datastore's \<open>users\<close>; a column the row lacks reads as
  \<open>NULL\<close>.
\<close>

definition user_of_row :: "row \<Rightarrow> UserRecord" where
  "user_of_row r =
     \<lparr>u_id = (case map_of r ''id'' of None \<Rightarrow> PNone | Some v \<Rightarrow> v),
      u_username = (case map_of r ''username'' of None \<Rightarrow> PNone | Some v \<Rightarrow> v),
      u_email = (case map_of r ''email'' of None \<Rightarrow> PNone | Some v \<Rightarrow> v),
      u_password_hash = (case map_of r ''password_hash'' of None \<Rightarrow> PNone | Some v \<Rightarrow> v),
      u_is_active = (case map_of r ''is_active'' of None \<Rightarrow> PNone | Some v \<Rightarrow> v)\<rparr>"




section \<open>Facts about the pool\<close>

lemma connect_all_upt: "connect_all n = [0..<n]"
  by (induction n) simp_all

lemma acquire_enter_cases:
  "acquire_enter s =
     (case queue s of
        [] \<Rightarrow> (Inl (RuntimeError POOL_EXHAUSTED),
               s\<lparr>trace := trace s @ [EvGetTimeout 5], clock := clock s + 5\<rparr>)
      | c # rest \<Rightarrow> (Inr c, s\<lparr>queue := rest, trace := trace s @ [EvGet c], in_use := c # in_use s\<rparr>))"
  by (simp add: acquire_enter_def queue_get_def split: list.splits)

lemma acquire_exit_Some:
  "\<not> queue_full s \<Longrightarrow>
   acquire_exit c outcome s =
     Some (outcome,
       (case outcome of
          Inl e \<Rightarrow> if is_Exception e then conn_rollback c s else s
        | Inr v \<Rightarrow> conn_commit c s)
       \<lparr>queue := queue s @ [c],
        trace := trace s @ (case outcome of
                   Inl e \<Rightarrow> if is_Exception e then [EvRollback c] else []
                 | Inr v \<Rightarrow> [EvCommit c]) @ [EvPut c],
        in_use := remove1 c (in_use s)\<rparr>)"
  by (auto simp: acquire_exit_def queue_put_def queue_full_def conn_rollback_def conn_commit_def
      split: sum.splits)


lemma pool_inv_length: "pool_inv n s \<Longrightarrow> length (queue s) + length (in_use s) = nat n"
proof -
  assume "pool_inv n s"
  then have "size (mset (queue s @ in_use s)) = size (mset [0..<nat n])"
    by (simp only: pool_inv_def connect_all_upt)
  then show ?thesis by simp
qed

lemma pool_inv_not_full:
  assumes "pool_inv n s" "c \<in> set (in_use s)"
  shows "\<not> queue_full s"
proof -
  have "length (in_use s) > 0" using assms(2) by (cases "in_use s") auto
  with pool_inv_length[OF assms(1)] have "length (queue s) < nat n" by linarith
  moreover have "maxsize s = n" using assms(1) by (simp add: pool_inv_def)
  ultimately show ?thesis unfolding queue_full_def by linarith
qed

lemma mset_give_back:
  "c \<in> set ys \<Longrightarrow> mset ((xs @ [c]) @ remove1 c ys) = mset (xs @ ys)"
  by simp

lemma mset_take_head: "mset (rest @ c # ys) = mset ((c # rest) @ ys)"
  by simp

lemma pool_inv_step:
  assumes "step drv s s'" "pool_inv n s"
  shows "pool_inv n s'"
  using assms
proof (induction rule: step.induct)
  case (step_enter s)
  show ?case
  proof (cases "queue s")
    case Nil
    with step_enter show ?thesis by (simp add: acquire_enter_cases pool_inv_def)
  next
    case (Cons c rest)
    have "mset (rest @ c # in_use s) = mset (queue s @ in_use s)"
      unfolding Cons by (rule mset_take_head)
    with step_enter Cons show ?thesis
      by (simp add: acquire_enter_cases pool_inv_def del: mset_append)
  qed
next
  case (step_work c s sql params)
  then show ?case
    by (auto simp: conn_execute_def pool_inv_def Let_def split: sum.splits prod.splits)
next
  case (step_exit c s outcome r s')
  have nf: "\<not> queue_full s" using pool_inv_not_full step_exit by blast
  have m: "mset ((queue s @ [c]) @ remove1 c (in_use s)) = mset (queue s @ in_use s)"
    using step_exit.hyps(1) by (rule mset_give_back)
  have q: "queue s' = queue s @ [c]" and u: "in_use s' = remove1 c (in_use s)"
    and x: "maxsize s' = maxsize s"
    using step_exit.hyps(2) unfolding acquire_exit_Some[OF nf]
    by (auto simp: conn_rollback_def conn_commit_def split: sum.splits if_splits)
  show ?case using step_exit.prems m unfolding pool_inv_def q u x by simp
qed

lemma pool_inv_steps:
  assumes "rtranclp (step drv) s s'" "pool_inv n s"
  shows "pool_inv n s'"
  using assms by (induction rule: rtranclp_induct) (auto intro: pool_inv_step)


declare close_all.simps [simp del]

lemma acquire_granted:
  assumes "queue s = c # rest"
  shows "acquire body s =
     (case body c (s\<lparr>queue := rest, trace := trace s @ [EvGet c], in_use := c # in_use s\<rparr>) of
        (outcome, s2) \<Rightarrow> acquire_exit c outcome s2)"
  using assms by (simp add: acquire_def acquire_enter_cases)

lemma pool2_eval:
  "queue pool2 = [0, 1] \<and> in_use pool2 = [] \<and> maxsize pool2 = 2 \<and> trace pool2 = [] \<and>
   pool_created pool2 \<and> clock pool2 = 0 \<and> durable pool2 = store0 \<and> pending pool2 = (\<lambda>c. None)"
  by (simp add: pool2_def get_pool_def cfg2_def ConnectionPool_init_def boot_def eval_nat_numeral)

lemma acquire_timeout:
  assumes "queue s = []"
  shows "acquire body s =
           Some (Inl (RuntimeError POOL_EXHAUSTED),
                 s\<lparr>trace := trace s @ [EvGetTimeout 5], clock := clock s + 5\<rparr>)"
  using assms by (simp add: acquire_def acquire_enter_cases)

lemma pool_inv_get_pool:
  "\<not> pool_created s0 \<Longrightarrow> pool_inv (POOL_SIZE cfg) (get_pool cfg s0)"
  by (simp add: get_pool_def pool_inv_def ConnectionPool_init_def)

lemma all_held_queue_empty:
  assumes "pool_inv n s" "length (in_use s) = nat n"
  shows "queue s = []"
  using pool_inv_length[OF assms(1)] assms(2) by simp

lemma both_held_eval:
  "queue both_held = [] \<and> in_use both_held = [1, 0] \<and> maxsize both_held = 2 \<and>
   trace both_held = [EvGet 0, EvGet 1] \<and> clock both_held = 0"
  using pool2_eval by (simp add: both_held_def acquire_enter_cases)

lemma both_held_reached: "rtranclp (step sqlite_run) (get_pool cfg2 (boot store0)) both_held"
proof -
  have 1: "step sqlite_run pool2 (snd (acquire_enter pool2))" by (rule step_enter)
  have 2: "step sqlite_run (snd (acquire_enter pool2)) both_held"
    unfolding both_held_def by (rule step_enter)
  have "rtranclp (step sqlite_run) pool2 both_held"
    using 1 2 by (rule converse_rtranclp_into_rtranclp[OF _ r_into_rtranclp])
  then show ?thesis unfolding pool2_def .
qed

lemma close_all_eq:
  "close_all s =
     s\<lparr>queue := [],
       pending := (\<lambda>c. if c \<in> set (queue s) then None else pending s c),
       trace := trace s @ concat (map (\<lambda>c. [EvGet c, EvClose c]) (queue s))\<rparr>"
proof (induction "queue s" arbitrary: s)
  case Nil
  then show ?case by (subst close_all.simps) (simp add: Nil[symmetric])
next
  case (Cons c rest)
  let ?s1 = "conn_close c (s\<lparr>queue := rest, trace := trace s @ [EvGet c]\<rparr>)"
  have q: "queue ?s1 = rest" by (simp add: conn_close_def)
  have "close_all s = close_all ?s1"
    by (subst close_all.simps) (simp add: Cons(2)[symmetric])
  also have "\<dots> = ?s1\<lparr>queue := [],
       pending := (\<lambda>c. if c \<in> set (queue ?s1) then None else pending ?s1 c),
       trace := trace ?s1 @ concat (map (\<lambda>c. [EvGet c, EvClose c]) (queue ?s1))\<rparr>"
    using Cons(1)[of ?s1] q by simp
  also have "\<dots> = s\<lparr>queue := [],
       pending := (\<lambda>c. if c \<in> set (queue s) then None else pending s c),
       trace := trace s @ concat (map (\<lambda>c. [EvGet c, EvClose c]) (queue s))\<rparr>"
    by (auto simp: conn_close_def Cons(2)[symmetric] fun_eq_iff)
  finally show ?case .
qed

lemma drained_step:
  assumes "step drv s t" "queue s = []" "in_use s = []"
  shows "queue t = [] \<and> in_use t = [] \<and> pool_created t = pool_created s \<and> maxsize t = maxsize s"
  using assms by (induction rule: step.induct) (simp_all add: acquire_enter_cases)

lemma drained_steps:
  assumes "rtranclp (step drv) s t" "queue s = []" "in_use s = []"
  shows "queue t = [] \<and> in_use t = [] \<and> pool_created t = pool_created s \<and> maxsize t = maxsize s"
  using assms
proof (induction rule: rtranclp_induct)
  case base
  then show ?case by simp
next
  case (step y z)
  then show ?case using drained_step[of drv y z] by simp
qed

lemma sqlite_run_insert_order:
  "sqlite_run ''INSERT INTO orders (user_id, total_amount, status) VALUES (?, ?, 'pending')'' [a, b] db =
     Inr ([], 1,
          db\<lparr>orders := orders db @
             [[(''id'', PInt (next_id (orders db))), (''user_id'', a), (''total_amount'', b),
               (''status'', PStr ''pending''), (''created_at'', stamp db)]]\<rparr>)"
  by (simp add: sqlite_run_def)

lemma insert_order_work_eval:
  "fst (insert_order_work c s) = Inr 1 \<and>
   queue (snd (insert_order_work c s)) = queue s \<and>
   maxsize (snd (insert_order_work c s)) = maxsize s \<and>
   in_use (snd (insert_order_work c s)) = in_use s \<and>
   trace (snd (insert_order_work c s)) = trace s @
     [EvExecute c ''INSERT INTO orders (user_id, total_amount, status) VALUES (?, ?, 'pending')''
        [PInt 7, PFloat (85, - 1)]]"
  by (simp add: insert_order_work_def conn_execute_def Let_def sqlite_run_insert_order)

lemma closed2_eval:
  "queue closed2 = [] \<and> in_use closed2 = [] \<and>
   trace closed2 = [EvGet 0, EvClose 0, EvGet 1, EvClose 1] \<and> clock closed2 = 0 \<and>
   pool_created closed2 \<and> maxsize closed2 = 2"
  unfolding closed2_def using pool2_eval by (simp add: close_all_eq)

subsection \<open>The query helper\<close>

lemma driver_calls_append: "driver_calls (xs @ ys) = driver_calls xs @ driver_calls ys"
  by (induction xs rule: driver_calls.induct) simp_all

lemma pool_ok_not_full:
  "pool_ok p \<Longrightarrow> queue p = c # rest \<Longrightarrow> \<not> queue_full (p\<lparr>queue := rest\<rparr>)"
  by (auto simp: pool_ok_def queue_full_def)

lemma conn_view_entered [simp]:
  "conn_view c (p\<lparr>queue := q, trace := t, in_use := u\<rparr>) = conn_view c p"
  by (simp add: conn_view_def split: option.splits)

lemma execute_granted:
  assumes q: "queue (get_pool cfg s) = c # rest"
    and nf: "\<not> queue_full ((get_pool cfg s)\<lparr>queue := rest\<rparr>)"
  shows "execute cfg drv sql params s =
     Some (case drv sql params (conn_view c (get_pool cfg s)) of
        Inl e \<Rightarrow>
          (Inl e,
           (get_pool cfg s)
             \<lparr>queue := rest @ [c],
              pending := (if is_Exception e then (pending (get_pool cfg s))(c := None)
                          else pending (get_pool cfg s)),
              trace := trace (get_pool cfg s) @ [EvGet c, EvExecute c sql params] @
                       (if is_Exception e then [EvRollback c] else []) @ [EvPut c]\<rparr>)
      | Inr (rs, n, d) \<Rightarrow>
          (Inr \<lparr>rows = rs, row_count = n\<rparr>,
           (get_pool cfg s)
             \<lparr>queue := rest @ [c], durable := d,
              pending := (pending (get_pool cfg s))(c := None),
              trace := trace (get_pool cfg s) @ [EvGet c, EvExecute c sql params, EvCommit c, EvPut c]\<rparr>))"
proof -
  define p where "p = get_pool cfg s"
  define s1 where "s1 = p\<lparr>queue := rest, trace := trace p @ [EvGet c], in_use := c # in_use p\<rparr>"
  have q': "queue p = c # rest" using q by (simp add: p_def)
  have nf1: "\<not> queue_full s1" using nf by (simp add: p_def s1_def queue_full_def)
  have v: "conn_view c s1 = conn_view c p" by (simp add: s1_def)
  show ?thesis
  proof (cases "drv sql params (conn_view c p)")
    case (Inl e)
    have nf2: "\<not> queue_full (s1\<lparr>trace := trace s1 @ [EvExecute c sql params]\<rparr>)"
      using nf1 by (simp add: queue_full_def)
    show ?thesis
      unfolding execute_def p_def[symmetric] acquire_granted[OF q'] s1_def[symmetric]
      by (simp add: conn_execute_def v Inl acquire_exit_Some[OF nf2])
         (simp add: s1_def conn_rollback_def)
  next
    case (Inr x)
    obtain rs n d where x: "x = (rs, n, d)" by (cases x) auto
    have nf2: "\<not> queue_full (s1\<lparr>trace := trace s1 @ [EvExecute c sql params],
                 pending := (pending s1)(c \<mapsto> d)\<rparr>)"
      using nf1 by (simp add: queue_full_def)
    show ?thesis
      unfolding execute_def p_def[symmetric] acquire_granted[OF q'] s1_def[symmetric]
      by (simp add: conn_execute_def v Inr x acquire_exit_Some[OF nf2])
         (simp add: s1_def conn_commit_def conn_view_def)
  qed
qed

lemma execute_exhausted:
  assumes "queue (get_pool cfg s) = []"
  shows "execute cfg drv sql params s =
     Some (Inl (RuntimeError POOL_EXHAUSTED),
           (get_pool cfg s)\<lparr>trace := trace (get_pool cfg s) @ [EvGetTimeout 5],
                            clock := clock (get_pool cfg s) + 5\<rparr>)"
  unfolding execute_def using assms by (rule acquire_timeout)

lemma acquire_exit_None: "queue_full s \<Longrightarrow> acquire_exit c outcome s = None"
  by (cases outcome)
     (simp_all add: acquire_exit_def queue_put_def queue_full_def conn_rollback_def conn_commit_def)

lemma execute_blocked:
  assumes q: "queue (get_pool cfg s) = c # rest"
    and f: "queue_full ((get_pool cfg s)\<lparr>queue := rest\<rparr>)"
  shows "execute cfg drv sql params s = None"
proof -
  define p where "p = get_pool cfg s"
  define s1 where "s1 = p\<lparr>queue := rest, trace := trace p @ [EvGet c], in_use := c # in_use p\<rparr>"
  have q': "queue p = c # rest" using q by (simp add: p_def)
  have f1: "queue_full s1" using f by (simp add: p_def s1_def queue_full_def)
  have f2: "queue_full (snd (conn_execute drv c sql params s1))"
    using f1 by (cases "drv sql params (conn_view c s1)")
      (auto simp: conn_execute_def queue_full_def)
  show ?thesis
    unfolding execute_def p_def[symmetric] acquire_granted[OF q'] s1_def[symmetric]
    using f2
    by (cases "conn_execute drv c sql params s1")
       (auto simp: acquire_exit_None queue_full_def split: sum.splits)
qed

lemma execute_calls:
  "calls_of (execute cfg drv sql params s) = one_call cfg s sql params"
proof (cases "queue (get_pool cfg s)")
  case Nil
  then show ?thesis
    by (simp add: execute_exhausted calls_of_def one_call_def driver_calls_append)
next
  case (Cons c rest)
  show ?thesis
  proof (cases "queue_full ((get_pool cfg s)\<lparr>queue := rest\<rparr>)")
    case True
    then show ?thesis
      using Cons by (simp add: execute_blocked calls_of_def one_call_def)
  next
    case False
    show ?thesis
      unfolding execute_granted[OF Cons False]
      using Cons False
      by (cases "drv sql params (conn_view c (get_pool cfg s))")
         (auto simp: calls_of_def one_call_def driver_calls_append)
  qed
qed

lemma execute_answer:
  assumes "driver_answer cfg drv sql params s = Some (rs, n)"
  shows "\<exists>s1. execute cfg drv sql params s = Some (Inr \<lparr>rows = rs, row_count = n\<rparr>, s1)"
proof -
  from assms obtain c rest d where q: "queue (get_pool cfg s) = c # rest"
    and ok: "pool_ok (get_pool cfg s)"
    and a: "drv sql params (conn_view c (get_pool cfg s)) = Inr (rs, n, d)"
    by (auto simp: driver_answer_def Let_def split: list.splits if_splits sum.splits)
  show ?thesis
    unfolding execute_granted[OF q pool_ok_not_full[OF ok q]] a by simp
qed

subsection \<open>Rows and records\<close>

lemma calls_of_after:
  assumes "\<And>r s1. x = Some (r, s1) \<Longrightarrow> \<exists>r'. y = Some (r', s1)" and "x = None \<Longrightarrow> y = None"
  shows "calls_of y = calls_of x"
proof (cases x)
  case None
  then show ?thesis using assms(2) by (simp add: calls_of_def)
next
  case (Some a)
  obtain r s1 where "a = (r, s1)" by (cases a)
  with Some assms(1) show ?thesis by (auto simp: calls_of_def)
qed

lemma map_of_key: "k \<in> set (map fst r) \<Longrightarrow> \<exists>v. map_of r k = Some v"
  by (cases "map_of r k") (auto simp: map_of_eq_None_iff)

lemma UserRecord_init_ok:
  assumes "set (map fst r) = set UserRecord_fields"
  shows "\<exists>u. UserRecord_init r = Inr u \<and> UserRecord_of r u"
proof -
  have k: "\<And>k. k \<in> set UserRecord_fields \<Longrightarrow> \<exists>v. map_of r k = Some v"
    using assms map_of_key by metis
  obtain a where a: "map_of r ''id'' = Some a" using k by (auto simp: UserRecord_fields_def)
  obtain b where b: "map_of r ''username'' = Some b" using k by (auto simp: UserRecord_fields_def)
  obtain c where c: "map_of r ''email'' = Some c" using k by (auto simp: UserRecord_fields_def)
  obtain d where d: "map_of r ''password_hash'' = Some d" using k by (auto simp: UserRecord_fields_def)
  obtain e where e: "map_of r ''is_active'' = Some e" using k by (auto simp: UserRecord_fields_def)
  have "UserRecord_init r =
    Inr \<lparr>u_id = a, u_username = b, u_email = c, u_password_hash = d, u_is_active = e\<rparr>"
    unfolding UserRecord_init_def using assms by (simp only: a b c d e) simp
  then show ?thesis by (simp add: UserRecord_of_def a b c d e)
qed

lemma OrderRecord_init_ok:
  assumes "set (map fst r) = set OrderRecord_fields"
  shows "\<exists>x. OrderRecord_init r = Inr x \<and> OrderRecord_of r x"
proof -
  have k: "\<And>k. k \<in> set OrderRecord_fields \<Longrightarrow> \<exists>v. map_of r k = Some v"
    using assms map_of_key by metis
  obtain a where a: "map_of r ''id'' = Some a" using k by (auto simp: OrderRecord_fields_def)
  obtain b where b: "map_of r ''user_id'' = Some b" using k by (auto simp: OrderRecord_fields_def)
  obtain c where c: "map_of r ''total_amount'' = Some c" using k by (auto simp: OrderRecord_fields_def)
  obtain d where d: "map_of r ''status'' = Some d" using k by (auto simp: OrderRecord_fields_def)
  obtain e where e: "map_of r ''created_at'' = Some e" using k by (auto simp: OrderRecord_fields_def)
  have "OrderRecord_init r =
    Inr \<lparr>o_id = a, o_user_id = b, o_total_amount = c, o_status = d, o_created_at = e\<rparr>"
    unfolding OrderRecord_init_def using assms by (simp only: a b c d e) simp
  then show ?thesis by (simp add: OrderRecord_of_def a b c d e)
qed

lemma get_user_by_id_answer:
  assumes "driver_answer cfg drv
     ''SELECT id, username, email, password_hash, is_active FROM users WHERE id = ?''
     [PInt user_id] s = Some (rs, n)"
  shows "map_option fst (get_user_by_id cfg drv user_id s) =
     Some (case rs of [] \<Rightarrow> Inr None
           | r # _ \<Rightarrow> (case UserRecord_init r of Inl e \<Rightarrow> Inl e | Inr u \<Rightarrow> Inr (Some u)))"
  using execute_answer[OF assms]
  by (auto simp: get_user_by_id_def split: list.splits sum.splits)

lemma get_user_by_username_answer:
  assumes "driver_answer cfg drv
     ''SELECT id, username, email, password_hash, is_active FROM users WHERE username = ?''
     [PStr username] s = Some (rs, n)"
  shows "map_option fst (get_user_by_username cfg drv username s) =
     Some (case rs of [] \<Rightarrow> Inr None
           | r # _ \<Rightarrow> (case UserRecord_init r of Inl e \<Rightarrow> Inl e | Inr u \<Rightarrow> Inr (Some u)))"
  using execute_answer[OF assms]
  by (auto simp: get_user_by_username_def split: list.splits sum.splits)

lemma get_order_by_id_answer:
  assumes "driver_answer cfg drv
     ''SELECT id, user_id, total_amount, status, created_at FROM orders WHERE id = ?''
     [PInt order_id] s = Some (rs, n)"
  shows "map_option fst (get_order_by_id cfg drv order_id s) =
     Some (case rs of [] \<Rightarrow> Inr None
           | r # _ \<Rightarrow> (case OrderRecord_init r of Inl e \<Rightarrow> Inl e | Inr x \<Rightarrow> Inr (Some x)))"
  using execute_answer[OF assms]
  by (auto simp: get_order_by_id_def split: list.splits sum.splits)

lemma get_orders_by_user_answer:
  assumes "driver_answer cfg drv
     ''SELECT id, user_id, total_amount, status, created_at FROM orders WHERE user_id = ?''
     [PInt user_id] s = Some (rs, n)"
  shows "map_option fst (get_orders_by_user cfg drv user_id s) = Some (OrderRecord_all rs)"
  using execute_answer[OF assms]
  by (auto simp: get_orders_by_user_def)

subsection \<open>The datastore\<close>

lemma sqlite_run_user_by_id:
  "sqlite_run ''SELECT id, username, email, password_hash, is_active FROM users WHERE id = ?'' [v] db =
     Inr (map (select_cols [''id'', ''username'', ''email'', ''password_hash'', ''is_active''])
            (filter (sql_match ''id'' v) (users db)), - 1, db)"
  by (simp add: sqlite_run_def)

lemma sqlite_run_user_by_username:
  "sqlite_run ''SELECT id, username, email, password_hash, is_active FROM users WHERE username = ?'' [v] db =
     Inr (map (select_cols [''id'', ''username'', ''email'', ''password_hash'', ''is_active''])
            (filter (sql_match ''username'' v) (users db)), - 1, db)"
  by (simp add: sqlite_run_def)

lemma sqlite_run_deactivate:
  "sqlite_run ''UPDATE users SET is_active = 0 WHERE id = ?'' [v] db =
     Inr ([], int (length (filter (sql_match ''id'' v) (users db))),
          db\<lparr>users := map (\<lambda>r. if sql_match ''id'' v r then set_col ''is_active'' (PInt 0) r else r)
                          (users db)\<rparr>)"
  by (simp add: sqlite_run_def)

lemma sqlite_run_orders_by_user:
  "sqlite_run ''SELECT id, user_id, total_amount, status, created_at FROM orders WHERE user_id = ?'' [v] db =
     Inr (map (select_cols [''id'', ''user_id'', ''total_amount'', ''status'', ''created_at''])
            (filter (sql_match ''user_id'' v) (orders db)), - 1, db)"
  by (simp add: sqlite_run_def)

lemma sqlite_run_order_by_id:
  "sqlite_run ''SELECT id, user_id, total_amount, status, created_at FROM orders WHERE id = ?'' [v] db =
     Inr (map (select_cols [''id'', ''user_id'', ''total_amount'', ''status'', ''created_at''])
            (filter (sql_match ''id'' v) (orders db)), - 1, db)"
  by (simp add: sqlite_run_def)

lemma sqlite_run_update_status:
  "sqlite_run ''UPDATE orders SET status = ? WHERE id = ?'' [a, v] db =
     Inr ([], int (length (filter (sql_match ''id'' v) (orders db))),
          db\<lparr>orders := map (\<lambda>r. if sql_match ''id'' v r then set_col ''status'' a r else r)
                           (orders db)\<rparr>)"
  by (simp add: sqlite_run_def)

lemma boot_pool_eval:
  "queue (get_pool cfg2 (boot d)) = [0, 1] \<and> pool_ok (get_pool cfg2 (boot d)) \<and>
   conn_view 0 (get_pool cfg2 (boot d)) = d"
  by (simp add: get_pool_def cfg2_def ConnectionPool_init_def boot_def pool_ok_def conn_view_def
      eval_nat_numeral)

lemma driver_answer_boot:
  "driver_answer cfg2 drv sql params (boot d) =
     (case drv sql params d of Inl e \<Rightarrow> None | Inr (rs, n, d') \<Rightarrow> Some (rs, n))"
  using boot_pool_eval[of d] by (simp add: driver_answer_def Let_def)

lemma store1_eval:
  "users store1 = [[(''id'', PInt 1), (''username'', PStr ''alice''), (''email'', PStr ''alice@example.com''),
                (''password_hash'', PStr ''x''), (''is_active'', PInt 1)]] \<and>
   orders store1 = [[(''id'', PInt 1), (''user_id'', PInt 7), (''total_amount'', PFloat (85, - 1)),
                 (''status'', PStr ''pending''), (''created_at'', PStr ''2024-01-01 00:00:00'')]]"
  by (simp add: store1_def)

lemma UserRecord_of_unique:
  "UserRecord_of r u \<Longrightarrow> map_of r ''id'' = Some a \<Longrightarrow> map_of r ''username'' = Some b \<Longrightarrow>
   map_of r ''email'' = Some c \<Longrightarrow> map_of r ''password_hash'' = Some d \<Longrightarrow>
   map_of r ''is_active'' = Some e \<Longrightarrow>
   u = \<lparr>u_id = a, u_username = b, u_email = c, u_password_hash = d, u_is_active = e\<rparr>"
  by (cases u) (simp add: UserRecord_of_def)

lemma OrderRecord_of_unique:
  "OrderRecord_of r x \<Longrightarrow> map_of r ''id'' = Some a \<Longrightarrow> map_of r ''user_id'' = Some b \<Longrightarrow>
   map_of r ''total_amount'' = Some c \<Longrightarrow> map_of r ''status'' = Some d \<Longrightarrow>
   map_of r ''created_at'' = Some e \<Longrightarrow>
   x = \<lparr>o_id = a, o_user_id = b, o_total_amount = c, o_status = d, o_created_at = e\<rparr>"
  by (cases x) (simp add: OrderRecord_of_def)

lemma answers1:
  "driver_answer cfg2 sqlite_run
      ''SELECT id, username, email, password_hash, is_active FROM users WHERE id = ?''
      [PInt 2] (boot store1) = Some ([], - 1)"
  "driver_answer cfg2 sqlite_run
      ''SELECT id, username, email, password_hash, is_active FROM users WHERE id = ?''
      [PInt 1] (boot store1) = Some (alice_row # [], - 1)"
  "driver_answer cfg2 sqlite_run
      ''SELECT id, username, email, password_hash, is_active FROM users WHERE username = ?''
      [PStr ''bob''] (boot store1) = Some ([], - 1)"
  "driver_answer cfg2 sqlite_run
      ''SELECT id, username, email, password_hash, is_active FROM users WHERE username = ?''
      [PStr ''alice''] (boot store1) = Some (alice_row # [], - 1)"
  "driver_answer cfg2 sqlite_run
      ''SELECT id, user_id, total_amount, status, created_at FROM orders WHERE id = ?''
      [PInt 2] (boot store1) = Some ([], - 1)"
  "driver_answer cfg2 sqlite_run
      ''SELECT id, user_id, total_amount, status, created_at FROM orders WHERE id = ?''
      [PInt 1] (boot store1) = Some (order1_row # [], - 1)"
  by (simp_all add: driver_answer_boot sqlite_run_user_by_id sqlite_run_user_by_username
      sqlite_run_order_by_id store1_eval sql_match_def select_cols_def alice_row_def order1_row_def)

lemma rows1:
  "set (map fst alice_row) = set UserRecord_fields"
  "set (map fst order1_row) = set OrderRecord_fields"
  "map_of alice_row ''id'' = Some (PInt 1)" "map_of alice_row ''username'' = Some (PStr ''alice'')"
  "map_of alice_row ''email'' = Some (PStr ''alice@example.com'')"
  "map_of alice_row ''password_hash'' = Some (PStr ''x'')"
  "map_of alice_row ''is_active'' = Some (PInt 1)"
  "map_of order1_row ''id'' = Some (PInt 1)" "map_of order1_row ''user_id'' = Some (PInt 7)"
  "map_of order1_row ''total_amount'' = Some (PFloat (85, - 1))"
  "map_of order1_row ''status'' = Some (PStr ''pending'')"
  "map_of order1_row ''created_at'' = Some (PStr ''2024-01-01 00:00:00'')"
  by (simp_all add: alice_row_def order1_row_def UserRecord_fields_def OrderRecord_fields_def)

lemma UserRecord_init_bad:
  assumes "set (map fst r) \<noteq> set UserRecord_fields"
  shows "UserRecord_init r = Inl TypeError"
proof (cases "set (map fst r) \<subseteq> set UserRecord_fields")
  case False
  then show ?thesis by (simp add: UserRecord_init_def)
next
  case True
  with assms obtain k where k: "k \<in> set UserRecord_fields" "k \<notin> set (map fst r)" by blast
  then have n: "map_of r k = None" by (simp add: map_of_eq_None_iff)
  from k(1) have "k = ''id'' \<or> k = ''username'' \<or> k = ''email'' \<or> k = ''password_hash'' \<or>
     k = ''is_active''" by (simp add: UserRecord_fields_def)
  with n show ?thesis
    unfolding UserRecord_init_def by (elim disjE) (simp_all split: option.splits)
qed

lemma OrderRecord_init_bad:
  assumes "set (map fst r) \<noteq> set OrderRecord_fields"
  shows "OrderRecord_init r = Inl TypeError"
proof (cases "set (map fst r) \<subseteq> set OrderRecord_fields")
  case False
  then show ?thesis by (simp add: OrderRecord_init_def)
next
  case True
  with assms obtain k where k: "k \<in> set OrderRecord_fields" "k \<notin> set (map fst r)" by blast
  then have n: "map_of r k = None" by (simp add: map_of_eq_None_iff)
  from k(1) have "k = ''id'' \<or> k = ''user_id'' \<or> k = ''total_amount'' \<or> k = ''status'' \<or>
     k = ''created_at''" by (simp add: OrderRecord_fields_def)
  with n show ?thesis
    unfolding OrderRecord_init_def by (elim disjE) (simp_all split: option.splits)
qed

lemma short_row_eval:
  "set (map fst short_row) \<noteq> set UserRecord_fields \<and>
   set (map fst short_row) \<noteq> set OrderRecord_fields"
proof -
  have "''email'' \<notin> set (map fst short_row)" "''status'' \<notin> set (map fst short_row)"
    by (simp_all add: short_row_def)
  moreover have "''email'' \<in> set UserRecord_fields" "''status'' \<in> set OrderRecord_fields"
    by (simp_all add: UserRecord_fields_def OrderRecord_fields_def)
  ultimately show ?thesis by metis
qed

lemma short_answers:
  "driver_answer cfg2 short_driver sql params (boot ()) = Some (short_row # [], - 1)"
  by (simp add: driver_answer_boot short_driver_def)

lemma answers6:
  "driver_answer cfg2 sqlite_run ''UPDATE users SET is_active = 0 WHERE id = ?'' [PInt 99] (boot store1)
     = Some ([], 0)"
  "driver_answer cfg2 sqlite_run ''UPDATE users SET is_active = 0 WHERE id = ?'' [PInt 1] (boot store1)
     = Some ([], 1)"
  "driver_answer cfg2 sqlite_run ''UPDATE orders SET status = ? WHERE id = ?''
     [PStr ''shipped'', PInt 99] (boot store1) = Some ([], 0)"
  "driver_answer cfg2 sqlite_run ''UPDATE orders SET status = ? WHERE id = ?''
     [PStr ''shipped'', PInt 1] (boot store1) = Some ([], 1)"
  by (simp_all add: driver_answer_boot sqlite_run_deactivate sqlite_run_update_status
      store1_eval sql_match_def)

subsection \<open>Batches\<close>




subsection \<open>Orders of a user\<close>

lemma OrderRecord_init_select:
  "OrderRecord_init (select_cols [''id'', ''user_id'', ''total_amount'', ''status'', ''created_at''] r) =
     Inr (order_of_row r)"
  by (simp add: select_cols_def OrderRecord_init_def OrderRecord_fields_def order_of_row_def)

lemma OrderRecord_all_select:
  "OrderRecord_all
     (map (select_cols [''id'', ''user_id'', ''total_amount'', ''status'', ''created_at'']) rs) =
     Inr (map order_of_row rs)"
  by (induction rs) (simp_all add: OrderRecord_init_select)

lemma get_pool_created: "pool_created (get_pool cfg s)"
  by (simp add: get_pool_def)

lemma get_pool_idem: "pool_created s \<Longrightarrow> get_pool cfg s = s"
  by (simp add: get_pool_def)

lemma get_orders_by_user_sqlite:
  assumes q: "queue (get_pool cfg s) = c # rest"
    and ok: "pool_ok (get_pool cfg s)"
    and pn: "pending (get_pool cfg s) c = None"
  shows "map_option fst (get_orders_by_user cfg sqlite_run user_id s) =
     Some (Inr (map order_of_row
                  (filter (sql_match ''user_id'' (PInt user_id)) (orders (durable (get_pool cfg s))))))"
proof -
  have v: "conn_view c (get_pool cfg s) = durable (get_pool cfg s)"
    using pn by (simp add: conn_view_def)
  have "driver_answer cfg sqlite_run
     ''SELECT id, user_id, total_amount, status, created_at FROM orders WHERE user_id = ?''
     [PInt user_id] s =
     Some (map (select_cols [''id'', ''user_id'', ''total_amount'', ''status'', ''created_at''])
            (filter (sql_match ''user_id'' (PInt user_id)) (orders (durable (get_pool cfg s)))), - 1)"
    using q ok by (simp add: driver_answer_def Let_def v sqlite_run_orders_by_user)
  then show ?thesis
    by (simp add: get_orders_by_user_answer OrderRecord_all_select)
qed








lemma sqlite_compile_insert_order:
  "sqlite_compile ''INSERT INTO orders (user_id, total_amount, status) VALUES (?, ?, 'pending')'' = Inr Dml"
  by (simp add: sqlite_compile_def)

lemma sqlite_compile_user_by_id:
  "sqlite_compile ''SELECT id, username, email, password_hash, is_active FROM users WHERE id = ?'' = Inr ReadOnly"
  by (simp add: sqlite_compile_def)

lemma sqlite_run_insert_order_raises:
  "sqlite_run ''INSERT INTO orders (user_id, total_amount, status) VALUES (?, ?, 'pending')'' p d = Inl e
     \<Longrightarrow> is_Exception e"
  by (auto simp: sqlite_run_def bad_binding_def split: list.splits)




lemma sqlite3_run_bound:
  "list_all bindable params \<Longrightarrow> sqlite3_run sql params d = sqlite_run sql params d"
  by (simp add: sqlite3_run_def bind_checked_def)

lemma sqlite3_run_overflow:
  "\<not> list_all bindable params \<Longrightarrow> sqlite3_run sql params d = Inl (OverflowError INT_TOO_LARGE)"
  by (simp add: sqlite3_run_def bind_checked_def)


lemma execute_raised:
  assumes q: "queue (get_pool cfg s) = c # rest"
    and ok: "pool_ok (get_pool cfg s)"
    and a: "drv sql params (conn_view c (get_pool cfg s)) = Inl e"
  shows "map_option fst (execute cfg drv sql params s) = Some (Inl e)"
  unfolding execute_granted[where drv=drv and sql=sql and params=params, OF q pool_ok_not_full[OF ok q]] a
  by simp





lemma big_id: "\<not> in_int64 9223372036854775808 \<and> in_int64 99 \<and> in_int64 1 \<and> in_int64 2"
  by (simp add: in_int64_def)

lemma both_held_pool: "get_pool cfg2 both_held = both_held \<and> queue both_held = []"
proof -
  have "pool_created pool2" using pool2_eval by simp
  then have "pool_created both_held" by (simp add: both_held_def acquire_enter_cases split: list.splits)
  then show ?thesis using both_held_eval by (simp add: get_pool_idem)
qed

lemma get_by_key_generic:
  "(driver_answer cfg drv
      ''SELECT id, username, email, password_hash, is_active FROM users WHERE id = ?''
      [PInt user_id] s = Some ([], n) \<longrightarrow>
    map_option fst (get_user_by_id cfg drv user_id s) = Some (Inr None)) \<and>
   (driver_answer cfg drv
      ''SELECT id, username, email, password_hash, is_active FROM users WHERE id = ?''
      [PInt user_id] s = Some (r # rs, n) \<and> set (map fst r) = set UserRecord_fields \<longrightarrow>
    (\<exists>u. map_option fst (get_user_by_id cfg drv user_id s) = Some (Inr (Some u)) \<and>
         UserRecord_of r u)) \<and>
   (driver_answer cfg drv
      ''SELECT id, username, email, password_hash, is_active FROM users WHERE username = ?''
      [PStr username] s = Some ([], n) \<longrightarrow>
    map_option fst (get_user_by_username cfg drv username s) = Some (Inr None)) \<and>
   (driver_answer cfg drv
      ''SELECT id, username, email, password_hash, is_active FROM users WHERE username = ?''
      [PStr username] s = Some (r # rs, n) \<and> set (map fst r) = set UserRecord_fields \<longrightarrow>
    (\<exists>u. map_option fst (get_user_by_username cfg drv username s) = Some (Inr (Some u)) \<and>
         UserRecord_of r u)) \<and>
   (driver_answer cfg drv
      ''SELECT id, user_id, total_amount, status, created_at FROM orders WHERE id = ?''
      [PInt order_id] s = Some ([], n) \<longrightarrow>
    map_option fst (get_order_by_id cfg drv order_id s) = Some (Inr None)) \<and>
   (driver_answer cfg drv
      ''SELECT id, user_id, total_amount, status, created_at FROM orders WHERE id = ?''
      [PInt order_id] s = Some (r' # rs', n) \<and> set (map fst r') = set OrderRecord_fields \<longrightarrow>
    (\<exists>x. map_option fst (get_order_by_id cfg drv order_id s) = Some (Inr (Some x)) \<and>
         OrderRecord_of r' x))"
proof (intro conjI impI)
  assume "driver_answer cfg drv
      ''SELECT id, username, email, password_hash, is_active FROM users WHERE id = ?''
      [PInt user_id] s = Some ([], n)"
  then show "map_option fst (get_user_by_id cfg drv user_id s) = Some (Inr None)"
    by (simp add: get_user_by_id_answer)
next
  assume a: "driver_answer cfg drv
      ''SELECT id, username, email, password_hash, is_active FROM users WHERE id = ?''
      [PInt user_id] s = Some (r # rs, n) \<and> set (map fst r) = set UserRecord_fields"
  then obtain u where "UserRecord_init r = Inr u" "UserRecord_of r u"
    using UserRecord_init_ok by blast
  with a show "\<exists>u. map_option fst (get_user_by_id cfg drv user_id s) = Some (Inr (Some u)) \<and>
         UserRecord_of r u"
    by (simp add: get_user_by_id_answer)
next
  assume "driver_answer cfg drv
      ''SELECT id, username, email, password_hash, is_active FROM users WHERE username = ?''
      [PStr username] s = Some ([], n)"
  then show "map_option fst (get_user_by_username cfg drv username s) = Some (Inr None)"
    by (simp add: get_user_by_username_answer)
next
  assume a: "driver_answer cfg drv
      ''SELECT id, username, email, password_hash, is_active FROM users WHERE username = ?''
      [PStr username] s = Some (r # rs, n) \<and> set (map fst r) = set UserRecord_fields"
  then obtain u where "UserRecord_init r = Inr u" "UserRecord_of r u"
    using UserRecord_init_ok by blast
  with a show "\<exists>u. map_option fst (get_user_by_username cfg drv username s) = Some (Inr (Some u)) \<and>
         UserRecord_of r u"
    by (simp add: get_user_by_username_answer)
next
  assume "driver_answer cfg drv
      ''SELECT id, user_id, total_amount, status, created_at FROM orders WHERE id = ?''
      [PInt order_id] s = Some ([], n)"
  then show "map_option fst (get_order_by_id cfg drv order_id s) = Some (Inr None)"
    by (simp add: get_order_by_id_answer)
next
  assume a: "driver_answer cfg drv
      ''SELECT id, user_id, total_amount, status, created_at FROM orders WHERE id = ?''
      [PInt order_id] s = Some (r' # rs', n) \<and> set (map fst r') = set OrderRecord_fields"
  then obtain x where "OrderRecord_init r' = Inr x" "OrderRecord_of r' x"
    using OrderRecord_init_ok by blast
  with a show "\<exists>x. map_option fst (get_order_by_id cfg drv order_id s) = Some (Inr (Some x)) \<and>
         OrderRecord_of r' x"
    by (simp add: get_order_by_id_answer)
qed

lemma UserRecord_init_select:
  "UserRecord_init (select_cols [''id'', ''username'', ''email'', ''password_hash'', ''is_active''] r) =
     Inr (user_of_row r)"
  by (simp add: select_cols_def UserRecord_init_def UserRecord_fields_def user_of_row_def)

lemma driver_answer_granted:
  assumes "queue (get_pool cfg s) = c # rest" "pool_ok (get_pool cfg s)"
    "drv sql params (conn_view c (get_pool cfg s)) = Inr (rs, n, d)"
  shows "driver_answer cfg drv sql params s = Some (rs, n)"
  using assms by (simp add: driver_answer_def Let_def)

lemma get_user_by_id_sqlite3:
  assumes q: "queue (get_pool cfg s) = c # rest" and ok: "pool_ok (get_pool cfg s)"
    and i: "in_int64 user_id"
  shows "map_option fst (get_user_by_id cfg sqlite3_run user_id s) =
      Some (Inr (case filter (sql_match ''id'' (PInt user_id))
                        (users (conn_view c (get_pool cfg s))) of
                   [] \<Rightarrow> None
                 | x # _ \<Rightarrow> Some (user_of_row x)))"
proof -
  have a: "sqlite3_run ''SELECT id, username, email, password_hash, is_active FROM users WHERE id = ?''
      [PInt user_id] (conn_view c (get_pool cfg s)) =
    Inr (map (select_cols [''id'', ''username'', ''email'', ''password_hash'', ''is_active''])
            (filter (sql_match ''id'' (PInt user_id)) (users (conn_view c (get_pool cfg s)))), - 1,
         conn_view c (get_pool cfg s))"
    using i by (simp add: sqlite3_run_bound sqlite_run_user_by_id)
  show ?thesis
    unfolding get_user_by_id_answer[OF driver_answer_granted[where drv=sqlite3_run, OF q ok a]]
    by (simp add: UserRecord_init_select split: list.splits)
qed

lemma get_user_by_username_sqlite3:
  assumes q: "queue (get_pool cfg s) = c # rest" and ok: "pool_ok (get_pool cfg s)"
  shows "map_option fst (get_user_by_username cfg sqlite3_run username s) =
      Some (Inr (case filter (sql_match ''username'' (PStr username))
                        (users (conn_view c (get_pool cfg s))) of
                   [] \<Rightarrow> None
                 | x # _ \<Rightarrow> Some (user_of_row x)))"
proof -
  have a: "sqlite3_run
      ''SELECT id, username, email, password_hash, is_active FROM users WHERE username = ?''
      [PStr username] (conn_view c (get_pool cfg s)) =
    Inr (map (select_cols [''id'', ''username'', ''email'', ''password_hash'', ''is_active''])
            (filter (sql_match ''username'' (PStr username)) (users (conn_view c (get_pool cfg s)))),
         - 1, conn_view c (get_pool cfg s))"
    by (simp add: sqlite3_run_bound sqlite_run_user_by_username)
  show ?thesis
    unfolding get_user_by_username_answer[OF driver_answer_granted[where drv=sqlite3_run, OF q ok a]]
    by (simp add: UserRecord_init_select split: list.splits)
qed

lemma get_order_by_id_sqlite3:
  assumes q: "queue (get_pool cfg s) = c # rest" and ok: "pool_ok (get_pool cfg s)"
    and i: "in_int64 order_id"
  shows "map_option fst (get_order_by_id cfg sqlite3_run order_id s) =
      Some (Inr (case filter (sql_match ''id'' (PInt order_id))
                        (orders (conn_view c (get_pool cfg s))) of
                   [] \<Rightarrow> None
                 | x # _ \<Rightarrow> Some (order_of_row x)))"
proof -
  have a: "sqlite3_run ''SELECT id, user_id, total_amount, status, created_at FROM orders WHERE id = ?''
      [PInt order_id] (conn_view c (get_pool cfg s)) =
    Inr (map (select_cols [''id'', ''user_id'', ''total_amount'', ''status'', ''created_at''])
            (filter (sql_match ''id'' (PInt order_id)) (orders (conn_view c (get_pool cfg s)))), - 1,
         conn_view c (get_pool cfg s))"
    using i by (simp add: sqlite3_run_bound sqlite_run_order_by_id)
  show ?thesis
    unfolding get_order_by_id_answer[OF driver_answer_granted[where drv=sqlite3_run, OF q ok a]]
    by (simp add: OrderRecord_init_select split: list.splits)
qed

lemma both_held_store: "durable both_held = store0 \<and> users store0 = [] \<and> orders store0 = []"
  using pool2_eval by (simp add: both_held_def acquire_enter_cases store0_def)

section \<open>The claims\<close>



text \<open>
  C2, as the code has it. A unit of work that is granted connection \<open>c\<close> and leaves the
  \<open>with\<close> block with \<open>outcome\<close> in state \<open>s2\<close>: \<open>acquire\<close> returns that
  outcome unchanged, so an exception reaches the caller as it was raised. After the
  events of the unit of work come a single commit when it returned a value, a single
  rollback when it raised an exception derived from \<open>Exception\<close>, and neither when it
  raised one derived from \<open>BaseException\<close> only; then the put, which sends the
  connection to the back of the idle queue. The commit makes the connection's view
  durable; the rollback drops it; with neither, the open transaction stays on the
  connection.
\<close>

theorem acquire_commit_or_rollback:
  assumes "queue s = c # rest"
    and "body c (snd (acquire_enter s)) = (outcome, s2)"
    and "\<not> queue_full s2"
  shows "\<exists>s3. acquire body s = Some (outcome, s3) \<and>
           trace s3 = trace s2 @
             (case outcome of
                Inr v \<Rightarrow> [EvCommit c]
              | Inl e \<Rightarrow> if is_Exception e then [EvRollback c] else []) @ [EvPut c] \<and>
           queue s3 = queue s2 @ [c] \<and> in_use s3 = remove1 c (in_use s2) \<and>
           durable s3 = (case outcome of Inr v \<Rightarrow> conn_view c s2 | Inl e \<Rightarrow> durable s2) \<and>
           pending s3 c =
             (case outcome of
                Inr v \<Rightarrow> None
              | Inl e \<Rightarrow> if is_Exception e then None else pending s2 c)"
proof -
  have b: "body c (s\<lparr>queue := rest, trace := trace s @ [EvGet c], in_use := c # in_use s\<rparr>) = (outcome, s2)"
    using assms(1,2) by (simp add: acquire_enter_cases)
  have "acquire body s = acquire_exit c outcome s2"
    by (simp add: acquire_granted[OF assms(1)] b)
  then show ?thesis
    unfolding acquire_exit_Some[OF assms(3)]
    by (cases outcome) (simp_all add: conn_rollback_def conn_commit_def)
qed

theorem acquire_commit_or_rollback_witness:
  "queue pool2 = 0 # [1] \<and>
   fst (insert_order_work 0 (snd (acquire_enter pool2))) = Inr 1 \<and>
   \<not> queue_full (snd (insert_order_work 0 (snd (acquire_enter pool2)))) \<and>
   (\<exists>s3. acquire insert_order_work pool2 = Some (Inr 1, s3) \<and>
      trace s3 =
        [EvGet 0,
         EvExecute 0 ''INSERT INTO orders (user_id, total_amount, status) VALUES (?, ?, 'pending')''
           [PInt 7, PFloat (85, - 1)],
         EvCommit 0, EvPut 0] \<and>
      queue s3 = [1, 0] \<and> in_use s3 = [])"
proof -
  let ?s1 = "snd (acquire_enter pool2)"
  let ?s2 = "snd (insert_order_work 0 ?s1)"
  have q: "queue pool2 = 0 # [1]" using pool2_eval by simp
  have s1: "queue ?s1 = [1] \<and> in_use ?s1 = [0] \<and> maxsize ?s1 = 2 \<and> trace ?s1 = [EvGet 0]"
    using pool2_eval by (simp add: acquire_enter_cases)
  have o: "fst (insert_order_work 0 ?s1) = Inr 1" using insert_order_work_eval by blast
  have b: "insert_order_work 0 ?s1 = (Inr 1, ?s2)" using o by (simp add: prod_eq_iff)
  have s2: "queue ?s2 = [1] \<and> in_use ?s2 = [0] \<and> maxsize ?s2 = 2 \<and>
            trace ?s2 = [EvGet 0,
              EvExecute 0 ''INSERT INTO orders (user_id, total_amount, status) VALUES (?, ?, 'pending')''
                [PInt 7, PFloat (85, - 1)]]"
    using s1 insert_order_work_eval[of 0 ?s1] by simp
  have nf: "\<not> queue_full ?s2" using s2 by (simp add: queue_full_def)
  from acquire_commit_or_rollback[of pool2 0 "[1]" insert_order_work "Inr 1" ?s2, OF q b nf] s2 q o nf
  show ?thesis by auto
qed

text \<open>
  C2 as stated fails: a unit of work that inserts an order and is then interrupted
  (\<open>KeyboardInterrupt\<close>) raises, and neither commit nor rollback is applied.
\<close>

theorem rollback_when_raises_counterexample:
  "map_option fst (acquire interrupted_work pool2) = Some (Inl KeyboardInterrupt) \<and>
   map_option (txn_ends \<circ> trace \<circ> snd) (acquire interrupted_work pool2) = Some []"
  using pool2_eval
  by (simp add: acquire_def acquire_enter_cases acquire_exit_def queue_put_def queue_full_def
      interrupted_work_def conn_execute_def Let_def txn_ends_def split: sum.splits prod.splits)

text \<open>
  C3. An \<open>acquire\<close> on a pool with no idle connection, and so one on a pool made by
  \<open>get_pool\<close> whose every connection is held by a unit of work, fails with the
  \<open>RuntimeError\<close> of exhaustion. The unit of work is not run and nothing of the pool
  or the datastore changes: the state differs only by the one timed-out \<open>get\<close> in the
  trace, with no second attempt, and by the five seconds of the wait on the clock.
\<close>

theorem acquire_exhausted:
  assumes "queue s = [] \<or>
           (\<not> pool_created s0 \<and> rtranclp (step drv) (get_pool cfg s0) s \<and>
            length (in_use s) = nat (POOL_SIZE cfg))"
  shows "acquire body s =
           Some (Inl (RuntimeError POOL_EXHAUSTED),
                 s\<lparr>trace := trace s @ [EvGetTimeout 5], clock := clock s + 5\<rparr>)"
proof -
  have "queue s = []"
    using assms
  proof
    assume "queue s = []" then show ?thesis .
  next
    assume a: "\<not> pool_created s0 \<and> rtranclp (step drv) (get_pool cfg s0) s \<and>
            length (in_use s) = nat (POOL_SIZE cfg)"
    then have "pool_inv (POOL_SIZE cfg) s"
      using pool_inv_steps pool_inv_get_pool by blast
    with a show ?thesis by (simp add: all_held_queue_empty)
  qed
  then show ?thesis by (rule acquire_timeout)
qed

theorem acquire_exhausted_witness:
  "\<not> pool_created (boot store0) \<and>
   rtranclp (step sqlite_run) (get_pool cfg2 (boot store0)) both_held \<and>
   length (in_use both_held) = nat (POOL_SIZE cfg2) \<and>
   acquire interrupted_work both_held =
     Some (Inl (RuntimeError POOL_EXHAUSTED),
           both_held\<lparr>trace := [EvGet 0, EvGet 1, EvGetTimeout 5], clock := 5\<rparr>)"
proof -
  have a: "\<not> pool_created (boot store0)" by (simp add: boot_def)
  have l: "length (in_use both_held) = nat (POOL_SIZE cfg2)"
    using both_held_eval by (simp add: cfg2_def)
  have h: "queue both_held = [] \<or>
           (\<not> pool_created (boot store0) \<and>
            rtranclp (step sqlite_run) (get_pool cfg2 (boot store0)) both_held \<and>
            length (in_use both_held) = nat (POOL_SIZE cfg2))"
    using a l both_held_reached by blast
  have t: "trace both_held @ [EvGetTimeout 5] = [EvGet 0, EvGet 1, EvGetTimeout 5]"
    and c: "clock both_held + 5 = 5"
    using both_held_eval by simp_all
  show ?thesis
    using acquire_exhausted[OF h, of interrupted_work] a l both_held_reached
    unfolding t c by blast
qed




text \<open>
  C5, as the code has it. For any driver: when \<open>execute\<close> is granted a connection
  and the driver answers the query of \<open>get_user_by_id\<close>, \<open>get_user_by_username\<close>
  or \<open>get_order_by_id\<close> with no row, the accessor returns \<open>None\<close>: no error, no
  record; when the driver answers with rows and the first has the columns of the record,
  the accessor returns a record that holds the row's value in every field. On the
  datastore, with a connection granted, for every id within the signed 64-bit range and
  for every username: the accessor returns \<open>None\<close> when no row has the key, and the
  record of the first row that has it otherwise.
\<close>

theorem get_by_key_absent_or_mapped:
  "(driver_answer cfg drv
      ''SELECT id, username, email, password_hash, is_active FROM users WHERE id = ?''
      [PInt user_id] s = Some ([], n) \<longrightarrow>
    map_option fst (get_user_by_id cfg drv user_id s) = Some (Inr None)) \<and>
   (driver_answer cfg drv
      ''SELECT id, username, email, password_hash, is_active FROM users WHERE id = ?''
      [PInt user_id] s = Some (r # rs, n) \<and> set (map fst r) = set UserRecord_fields \<longrightarrow>
    (\<exists>u. map_option fst (get_user_by_id cfg drv user_id s) = Some (Inr (Some u)) \<and>
         UserRecord_of r u)) \<and>
   (driver_answer cfg drv
      ''SELECT id, username, email, password_hash, is_active FROM users WHERE username = ?''
      [PStr username] s = Some ([], n) \<longrightarrow>
    map_option fst (get_user_by_username cfg drv username s) = Some (Inr None)) \<and>
   (driver_answer cfg drv
      ''SELECT id, username, email, password_hash, is_active FROM users WHERE username = ?''
      [PStr username] s = Some (r # rs, n) \<and> set (map fst r) = set UserRecord_fields \<longrightarrow>
    (\<exists>u. map_option fst (get_user_by_username cfg drv username s) = Some (Inr (Some u)) \<and>
         UserRecord_of r u)) \<and>
   (driver_answer cfg drv
      ''SELECT id, user_id, total_amount, status, created_at FROM orders WHERE id = ?''
      [PInt order_id] s = Some ([], n) \<longrightarrow>
    map_option fst (get_order_by_id cfg drv order_id s) = Some (Inr None)) \<and>
   (driver_answer cfg drv
      ''SELECT id, user_id, total_amount, status, created_at FROM orders WHERE id = ?''
      [PInt order_id] s = Some (r' # rs', n) \<and> set (map fst r') = set OrderRecord_fields \<longrightarrow>
    (\<exists>x. map_option fst (get_order_by_id cfg drv order_id s) = Some (Inr (Some x)) \<and>
         OrderRecord_of r' x)) \<and>
   (queue (get_pool cfg s') = c # rest \<and> pool_ok (get_pool cfg s') \<and> in_int64 user_id \<longrightarrow>
    map_option fst (get_user_by_id cfg sqlite3_run user_id s') =
      Some (Inr (case filter (sql_match ''id'' (PInt user_id))
                        (users (conn_view c (get_pool cfg s'))) of
                   [] \<Rightarrow> None
                 | x # _ \<Rightarrow> Some (user_of_row x)))) \<and>
   (queue (get_pool cfg s') = c # rest \<and> pool_ok (get_pool cfg s') \<longrightarrow>
    map_option fst (get_user_by_username cfg sqlite3_run username s') =
      Some (Inr (case filter (sql_match ''username'' (PStr username))
                        (users (conn_view c (get_pool cfg s'))) of
                   [] \<Rightarrow> None
                 | x # _ \<Rightarrow> Some (user_of_row x)))) \<and>
   (queue (get_pool cfg s') = c # rest \<and> pool_ok (get_pool cfg s') \<and> in_int64 order_id \<longrightarrow>
    map_option fst (get_order_by_id cfg sqlite3_run order_id s') =
      Some (Inr (case filter (sql_match ''id'' (PInt order_id))
                        (orders (conn_view c (get_pool cfg s'))) of
                   [] \<Rightarrow> None
                 | x # _ \<Rightarrow> Some (order_of_row x))))"
  using get_by_key_generic[where cfg=cfg and drv=drv and user_id=user_id and s=s and n=n and r=r
      and rs=rs and username=username and order_id=order_id and r'=r' and rs'=rs']
    get_user_by_id_sqlite3[where cfg=cfg and s=s' and c=c and rest=rest and user_id=user_id]
    get_user_by_username_sqlite3[where cfg=cfg and s=s' and c=c and rest=rest and username=username]
    get_order_by_id_sqlite3[where cfg=cfg and s=s' and c=c and rest=rest and order_id=order_id]
  by (intro conjI impI) (blast+)

theorem get_by_key_absent_or_mapped_witness:
  "driver_answer cfg2 sqlite_run
      ''SELECT id, username, email, password_hash, is_active FROM users WHERE id = ?''
      [PInt 2] (boot store1) = Some ([], - 1) \<and>
   map_option fst (get_user_by_id cfg2 sqlite_run 2 (boot store1)) = Some (Inr None) \<and>
   driver_answer cfg2 sqlite_run
      ''SELECT id, username, email, password_hash, is_active FROM users WHERE id = ?''
      [PInt 1] (boot store1) = Some (alice_row # [], - 1) \<and>
   set (map fst alice_row) = set UserRecord_fields \<and>
   map_option fst (get_user_by_id cfg2 sqlite_run 1 (boot store1)) =
     Some (Inr (Some \<lparr>u_id = PInt 1, u_username = PStr ''alice'', u_email = PStr ''alice@example.com'',
                      u_password_hash = PStr ''x'', u_is_active = PInt 1\<rparr>)) \<and>
   driver_answer cfg2 sqlite_run
      ''SELECT id, username, email, password_hash, is_active FROM users WHERE username = ?''
      [PStr ''bob''] (boot store1) = Some ([], - 1) \<and>
   map_option fst (get_user_by_username cfg2 sqlite_run ''bob'' (boot store1)) = Some (Inr None) \<and>
   driver_answer cfg2 sqlite_run
      ''SELECT id, username, email, password_hash, is_active FROM users WHERE username = ?''
      [PStr ''alice''] (boot store1) = Some (alice_row # [], - 1) \<and>
   map_option fst (get_user_by_username cfg2 sqlite_run ''alice'' (boot store1)) =
     Some (Inr (Some \<lparr>u_id = PInt 1, u_username = PStr ''alice'', u_email = PStr ''alice@example.com'',
                      u_password_hash = PStr ''x'', u_is_active = PInt 1\<rparr>)) \<and>
   driver_answer cfg2 sqlite_run
      ''SELECT id, user_id, total_amount, status, created_at FROM orders WHERE id = ?''
      [PInt 2] (boot store1) = Some ([], - 1) \<and>
   map_option fst (get_order_by_id cfg2 sqlite_run 2 (boot store1)) = Some (Inr None) \<and>
   driver_answer cfg2 sqlite_run
      ''SELECT id, user_id, total_amount, status, created_at FROM orders WHERE id = ?''
      [PInt 1] (boot store1) = Some (order1_row # [], - 1) \<and>
   set (map fst order1_row) = set OrderRecord_fields \<and>
   map_option fst (get_order_by_id cfg2 sqlite_run 1 (boot store1)) =
     Some (Inr (Some \<lparr>o_id = PInt 1, o_user_id = PInt 7, o_total_amount = PFloat (85, - 1),
                      o_status = PStr ''pending'', o_created_at = PStr ''2024-01-01 00:00:00''\<rparr>)) \<and>
   queue (get_pool cfg2 (boot store1)) = 0 # [1] \<and> pool_ok (get_pool cfg2 (boot store1)) \<and>
   in_int64 2 \<and>
   map_option fst (get_user_by_id cfg2 sqlite3_run 2 (boot store1)) = Some (Inr None) \<and>
   map_option fst (get_user_by_username cfg2 sqlite3_run ''bob'' (boot store1)) = Some (Inr None) \<and>
   map_option fst (get_order_by_id cfg2 sqlite3_run 2 (boot store1)) = Some (Inr None)"
proof -
  let ?p = "get_pool cfg2 (boot store1)"
  note absent = get_by_key_absent_or_mapped[where cfg=cfg2 and drv=sqlite_run and user_id=2
      and s="boot store1" and n="- 1" and r=alice_row and rs="[]" and username="''bob''"
      and order_id=2 and r'=order1_row and rs'="[]" and s'="boot store1" and c=0 and rest="[1]"]
  note found = get_by_key_absent_or_mapped[where cfg=cfg2 and drv=sqlite_run and user_id=1
      and s="boot store1" and n="- 1" and r=alice_row and rs="[]" and username="''alice''"
      and order_id=1 and r'=order1_row and rs'="[]" and s'="boot store1" and c=0 and rest="[1]"]
  have q: "queue ?p = 0 # [1]" and ok: "pool_ok ?p" and v: "conn_view 0 ?p = store1"
    using boot_pool_eval[of store1] by simp_all
  have i2: "in_int64 2" using big_id by simp
  have 1: "map_option fst (get_user_by_id cfg2 sqlite_run 2 (boot store1)) = Some (Inr None)"
    using absent[THEN conjunct1, THEN mp, OF answers1(1)] .
  have 3: "map_option fst (get_user_by_username cfg2 sqlite_run ''bob'' (boot store1)) = Some (Inr None)"
    using absent[THEN conjunct2, THEN conjunct2, THEN conjunct1, THEN mp, OF answers1(3)] .
  have 5: "map_option fst (get_order_by_id cfg2 sqlite_run 2 (boot store1)) = Some (Inr None)"
    using absent[THEN conjunct2, THEN conjunct2, THEN conjunct2, THEN conjunct2, THEN conjunct1,
        THEN mp, OF answers1(5)] .
  obtain u where u: "map_option fst (get_user_by_id cfg2 sqlite_run 1 (boot store1)) = Some (Inr (Some u))"
    "UserRecord_of alice_row u"
    using found[THEN conjunct2, THEN conjunct1, THEN mp, OF conjI[OF answers1(2) rows1(1)]] by blast
  obtain u' where u': "map_option fst (get_user_by_username cfg2 sqlite_run ''alice'' (boot store1)) = Some (Inr (Some u'))"
    "UserRecord_of alice_row u'"
    using found[THEN conjunct2, THEN conjunct2, THEN conjunct2, THEN conjunct1, THEN mp,
        OF conjI[OF answers1(4) rows1(1)]] by blast
  obtain x where x: "map_option fst (get_order_by_id cfg2 sqlite_run 1 (boot store1)) = Some (Inr (Some x))"
    "OrderRecord_of order1_row x"
    using found[THEN conjunct2, THEN conjunct2, THEN conjunct2, THEN conjunct2, THEN conjunct2,
        THEN conjunct1, THEN mp, OF conjI[OF answers1(6) rows1(2)]] by blast
  note ue = UserRecord_of_unique[OF u(2) rows1(3-7)]
  note ue' = UserRecord_of_unique[OF u'(2) rows1(3-7)]
  note xe = OrderRecord_of_unique[OF x(2) rows1(8-12)]
  have nu: "filter (sql_match ''id'' (PInt 2)) (users (conn_view 0 ?p)) = []"
    and nb: "filter (sql_match ''username'' (PStr ''bob'')) (users (conn_view 0 ?p)) = []"
    and no: "filter (sql_match ''id'' (PInt 2)) (orders (conn_view 0 ?p)) = []"
    unfolding v using store1_eval by (simp_all add: sql_match_def)
  have s1: "map_option fst (get_user_by_id cfg2 sqlite3_run 2 (boot store1)) = Some (Inr None)"
    using absent[THEN conjunct2, THEN conjunct2, THEN conjunct2, THEN conjunct2, THEN conjunct2,
        THEN conjunct2, THEN conjunct1, THEN mp, OF conjI[OF q conjI[OF ok i2]]]
    unfolding nu by simp
  have s2: "map_option fst (get_user_by_username cfg2 sqlite3_run ''bob'' (boot store1)) = Some (Inr None)"
    using absent[THEN conjunct2, THEN conjunct2, THEN conjunct2, THEN conjunct2, THEN conjunct2,
        THEN conjunct2, THEN conjunct2, THEN conjunct1, THEN mp, OF conjI[OF q ok]]
    unfolding nb by simp
  have s3: "map_option fst (get_order_by_id cfg2 sqlite3_run 2 (boot store1)) = Some (Inr None)"
    using absent[THEN conjunct2, THEN conjunct2, THEN conjunct2, THEN conjunct2, THEN conjunct2,
        THEN conjunct2, THEN conjunct2, THEN conjunct2, THEN mp, OF conjI[OF q conjI[OF ok i2]]]
    unfolding no by simp
  show ?thesis
    using answers1(1) 1 answers1(2) rows1(1) u(1)[unfolded ue] answers1(3) 3 answers1(4)
      u'(1)[unfolded ue'] answers1(5) 5 answers1(6) rows1(2) x(1)[unfolded xe] q ok i2 s1 s2 s3
    by (intro conjI)
qed

text \<open>
  C5 as stated fails. The id \<open>2 ^ 63\<close> matches no row of \<open>store1\<close>, and
  \<open>get_user_by_id\<close> and \<open>get_order_by_id\<close> raise the driver's
  \<open>OverflowError\<close>; and with every connection of the pool held,
  \<open>get_user_by_username\<close> raises the \<open>RuntimeError\<close> of exhaustion for a name
  that matches no row.
\<close>

theorem get_by_key_absent_counterexample:
  "filter (sql_match ''id'' (PInt 9223372036854775808)) (users store1) = [] \<and>
   map_option fst (get_user_by_id cfg2 sqlite3_run 9223372036854775808 (boot store1)) =
     Some (Inl (OverflowError INT_TOO_LARGE)) \<and>
   filter (sql_match ''id'' (PInt 9223372036854775808)) (orders store1) = [] \<and>
   map_option fst (get_order_by_id cfg2 sqlite3_run 9223372036854775808 (boot store1)) =
     Some (Inl (OverflowError INT_TOO_LARGE)) \<and>
   filter (sql_match ''username'' (PStr ''bob'')) (users (durable both_held)) = [] \<and>
   map_option fst (get_user_by_username cfg2 sqlite3_run ''bob'' both_held) =
     Some (Inl (RuntimeError POOL_EXHAUSTED))"
proof -
  let ?p = "get_pool cfg2 (boot store1)"
  have q: "queue ?p = 0 # [1]" and ok: "pool_ok ?p"
    using boot_pool_eval[of store1] by simp_all
  have o1: "sqlite3_run ''SELECT id, username, email, password_hash, is_active FROM users WHERE id = ?''
              [PInt 9223372036854775808] (conn_view 0 ?p) = Inl (OverflowError INT_TOO_LARGE)"
    and o2: "sqlite3_run ''SELECT id, user_id, total_amount, status, created_at FROM orders WHERE id = ?''
              [PInt 9223372036854775808] (conn_view 0 ?p) = Inl (OverflowError INT_TOO_LARGE)"
    using big_id by (simp_all add: sqlite3_run_overflow)
  have e1: "map_option fst (execute cfg2 sqlite3_run
              ''SELECT id, username, email, password_hash, is_active FROM users WHERE id = ?''
              [PInt 9223372036854775808] (boot store1)) = Some (Inl (OverflowError INT_TOO_LARGE))"
    using execute_raised[where drv=sqlite3_run, OF q ok o1] .
  have e2: "map_option fst (execute cfg2 sqlite3_run
              ''SELECT id, user_id, total_amount, status, created_at FROM orders WHERE id = ?''
              [PInt 9223372036854775808] (boot store1)) = Some (Inl (OverflowError INT_TOO_LARGE))"
    using execute_raised[where drv=sqlite3_run, OF q ok o2] .
  have r1: "map_option fst (get_user_by_id cfg2 sqlite3_run 9223372036854775808 (boot store1)) =
     Some (Inl (OverflowError INT_TOO_LARGE))"
    using e1 by (auto simp: get_user_by_id_def split: option.splits sum.splits)
  have r2: "map_option fst (get_order_by_id cfg2 sqlite3_run 9223372036854775808 (boot store1)) =
     Some (Inl (OverflowError INT_TOO_LARGE))"
    using e2 by (auto simp: get_order_by_id_def split: option.splits sum.splits)
  have bq: "queue (get_pool cfg2 both_held) = []" using both_held_pool by simp
  have r3: "map_option fst (get_user_by_username cfg2 sqlite3_run ''bob'' both_held) =
     Some (Inl (RuntimeError POOL_EXHAUSTED))"
    by (simp add: get_user_by_username_def execute_exhausted[OF bq])
  have m: "filter (sql_match ''id'' (PInt 9223372036854775808)) (users store1) = []"
    "filter (sql_match ''id'' (PInt 9223372036854775808)) (orders store1) = []"
    using store1_eval by (simp_all add: sql_match_def)
  have m3: "filter (sql_match ''username'' (PStr ''bob'')) (users (durable both_held)) = []"
    using both_held_store by simp
  show ?thesis using m(1) r1 m(2) r2 m3 r3 by (intro conjI)
qed




text \<open>
  C7. On the datastore, with an idle connection and no transaction open on the idle
  connections: \<open>create_order\<close> returns 1, and \<open>get_orders_by_user\<close> for the
  same user then returns the records it returned before, followed by one more record,
  whose user is the given user, whose \<open>total_amount\<close> is the given amount and whose
  status is \<open>pending\<close>. With no order for the user before, that is exactly one
  record.
\<close>

theorem create_order_pending:
  assumes "queue (get_pool cfg s) = c # rest"
    and "pool_ok (get_pool cfg s)"
    and "\<forall>c' \<in> set (c # rest). pending (get_pool cfg s) c' = None"
  shows "\<exists>s1 xs x.
           map_option fst (get_orders_by_user cfg sqlite_run user_id s) = Some (Inr xs) \<and>
           length xs = length (filter (sql_match ''user_id'' (PInt user_id))
                                 (orders (durable (get_pool cfg s)))) \<and>
           create_order cfg sqlite_run user_id total_amount s = Some (Inr 1, s1) \<and>
           map_option fst (get_orders_by_user cfg sqlite_run user_id s1) = Some (Inr (xs @ [x])) \<and>
           o_user_id x = PInt user_id \<and> o_total_amount x = PFloat total_amount \<and>
           o_status x = PStr ''pending''"
proof -
  define p where "p = get_pool cfg s"
  define db where "db = durable p"
  define new :: row where "new =
     [(''id'', PInt (next_id (orders db))), (''user_id'', PInt user_id),
      (''total_amount'', PFloat total_amount), (''status'', PStr ''pending''),
      (''created_at'', stamp db)]"
  define db' where "db' = db\<lparr>orders := orders db @ [new]\<rparr>"
  define s1 where "s1 = p\<lparr>queue := rest @ [c], durable := db',
              pending := (pending p)(c := None),
              trace := trace p @ [EvGet c,
                EvExecute c ''INSERT INTO orders (user_id, total_amount, status) VALUES (?, ?, 'pending')''
                  [PInt user_id, PFloat total_amount],
                EvCommit c, EvPut c]\<rparr>"
  define old where "old = filter (sql_match ''user_id'' (PInt user_id)) (orders db)"
  have q: "queue p = c # rest" and ok: "pool_ok p"
    and pn: "\<forall>c' \<in> set (c # rest). pending p c' = None"
    using assms by (simp_all add: p_def)
  have v: "conn_view c p = db" using pn by (simp add: conn_view_def db_def)
  have nf: "\<not> queue_full (p\<lparr>queue := rest\<rparr>)" using ok q by (rule pool_ok_not_full)
  have before: "map_option fst (get_orders_by_user cfg sqlite_run user_id s) =
                  Some (Inr (map order_of_row old))"
    unfolding old_def db_def p_def
    using assms by (intro get_orders_by_user_sqlite[of cfg s c rest]) simp_all
  have ex: "execute cfg sqlite_run
      ''INSERT INTO orders (user_id, total_amount, status) VALUES (?, ?, 'pending')''
      [PInt user_id, PFloat total_amount] s = Some (Inr \<lparr>rows = [], row_count = 1\<rparr>, s1)"
    using execute_granted[of cfg s c rest sqlite_run, OF q[unfolded p_def] nf[unfolded p_def]]
    unfolding p_def[symmetric] v
    by (simp add: sqlite_run_insert_order s1_def db'_def new_def)
  have co: "create_order cfg sqlite_run user_id total_amount s = Some (Inr 1, s1)"
    by (simp add: create_order_def ex)
  have created: "pool_created s1" by (simp add: s1_def p_def get_pool_created)
  have g1: "get_pool cfg s1 = s1" using created by (rule get_pool_idem)
  obtain c2 rest2 where q2: "rest @ [c] = c2 # rest2" by (cases rest) auto
  then have "c2 \<in> set (rest @ [c])" by simp
  then have c2: "c2 \<in> set (c # rest)" by auto
  have q1: "queue (get_pool cfg s1) = c2 # rest2" unfolding g1 by (simp add: s1_def q2)
  have "length rest2 = length rest" using q2 by (metis length_Cons length_append_singleton nat.inject)
  then have ok1: "pool_ok (get_pool cfg s1)"
    unfolding g1 using ok q by (simp add: pool_ok_def s1_def q2)
  have pn1: "pending (get_pool cfg s1) c2 = None"
    unfolding g1 using pn c2 by (auto simp: s1_def)
  have m: "sql_match ''user_id'' (PInt user_id) new" by (simp add: sql_match_def new_def)
  have d1: "durable (get_pool cfg s1) = db'" unfolding g1 by (simp add: s1_def)
  have after: "map_option fst (get_orders_by_user cfg sqlite_run user_id s1) =
                 Some (Inr (map order_of_row old @ [order_of_row new]))"
    unfolding get_orders_by_user_sqlite[OF q1 ok1 pn1] d1
    by (simp add: db'_def m old_def)
  have f: "o_user_id (order_of_row new) = PInt user_id \<and>
           o_total_amount (order_of_row new) = PFloat total_amount \<and>
           o_status (order_of_row new) = PStr ''pending''"
    by (simp add: order_of_row_def new_def)
  have l: "length (map order_of_row old) = length (filter (sql_match ''user_id'' (PInt user_id))
                                 (orders (durable (get_pool cfg s))))"
    by (simp add: old_def db_def p_def)
  show ?thesis
    using before l co after f by blast
qed

theorem create_order_pending_witness:
  "queue (get_pool cfg2 (boot store0)) = 0 # [1] \<and>
   pool_ok (get_pool cfg2 (boot store0)) \<and>
   pending (get_pool cfg2 (boot store0)) 0 = None \<and>
   pending (get_pool cfg2 (boot store0)) 1 = None \<and>
   filter (sql_match ''user_id'' (PInt 7)) (orders (durable (get_pool cfg2 (boot store0)))) = [] \<and>
   map_option fst (get_orders_by_user cfg2 sqlite_run 7 (boot store0)) = Some (Inr []) \<and>
   (\<exists>s1 x. create_order cfg2 sqlite_run 7 (85, - 1) (boot store0) = Some (Inr 1, s1) \<and>
           map_option fst (get_orders_by_user cfg2 sqlite_run 7 s1) = Some (Inr [x]) \<and>
           o_user_id x = PInt 7 \<and> o_total_amount x = PFloat (85, - 1) \<and>
           o_status x = PStr ''pending'')"
proof -
  let ?p = "get_pool cfg2 (boot store0)"
  have q: "queue ?p = 0 # [1]" and ok: "pool_ok ?p"
    using boot_pool_eval[of store0] by simp_all
  have pe: "pending ?p = (\<lambda>c. None)" and du: "durable ?p = store0"
    by (simp_all add: get_pool_def cfg2_def ConnectionPool_init_def boot_def)
  have pn: "\<forall>c' \<in> set (0 # [1]). pending ?p c' = None" by (simp add: pe)
  have e: "filter (sql_match ''user_id'' (PInt 7)) (orders (durable ?p)) = []"
    unfolding du by (simp add: store0_def)
  from create_order_pending[of cfg2 "boot store0" 0 "[1]" 7 "(85, - 1)", OF q ok pn]
  obtain s1 xs x where
    b: "map_option fst (get_orders_by_user cfg2 sqlite_run 7 (boot store0)) = Some (Inr xs)"
    and l: "length xs = length (filter (sql_match ''user_id'' (PInt 7)) (orders (durable ?p)))"
    and c: "create_order cfg2 sqlite_run 7 (85, - 1) (boot store0) = Some (Inr 1, s1)"
    and a: "map_option fst (get_orders_by_user cfg2 sqlite_run 7 s1) = Some (Inr (xs @ [x]))"
    and f: "o_user_id x = PInt 7" "o_total_amount x = PFloat (85, - 1)" "o_status x = PStr ''pending''"
    by blast
  have xs: "xs = []" using l unfolding e by simp
  have ex: "\<exists>s1 x. create_order cfg2 sqlite_run 7 (85, - 1) (boot store0) = Some (Inr 1, s1) \<and>
           map_option fst (get_orders_by_user cfg2 sqlite_run 7 s1) = Some (Inr [x]) \<and>
           o_user_id x = PInt 7 \<and> o_total_amount x = PFloat (85, - 1) \<and>
           o_status x = PStr ''pending''"
    using c a f unfolding xs by auto
  show ?thesis
    using q ok e b ex unfolding xs by (simp add: pe)
qed

text \<open>
  C8, as the code has it. \<open>UserRecord(**row)\<close> and \<open>OrderRecord(**row)\<close> raise
  \<open>TypeError\<close> when the columns of the row are not exactly the fields of the record
  (one is missing, or one is no field). When they are, the record is built and holds the
  row's value in every field, whatever its type: no value is checked, defaulted or
  coerced. The \<open>TypeError\<close> of the mapping reaches the caller of \<open>get_user_by_id\<close>
  and of \<open>get_orders_by_user\<close>.
\<close>

theorem record_init_checks_columns:
  "(set (map fst r) \<noteq> set UserRecord_fields \<longrightarrow> UserRecord_init r = Inl TypeError) \<and>
   (set (map fst r) = set UserRecord_fields \<longrightarrow>
      (\<exists>u. UserRecord_init r = Inr u \<and> UserRecord_of r u)) \<and>
   (set (map fst r) \<noteq> set OrderRecord_fields \<longrightarrow> OrderRecord_init r = Inl TypeError) \<and>
   (set (map fst r) = set OrderRecord_fields \<longrightarrow>
      (\<exists>x. OrderRecord_init r = Inr x \<and> OrderRecord_of r x)) \<and>
   (driver_answer cfg drv
      ''SELECT id, username, email, password_hash, is_active FROM users WHERE id = ?''
      [PInt user_id] s = Some (r # rs, n) \<and> UserRecord_init r = Inl e \<longrightarrow>
    map_option fst (get_user_by_id cfg drv user_id s) = Some (Inl e)) \<and>
   (driver_answer cfg drv
      ''SELECT id, user_id, total_amount, status, created_at FROM orders WHERE user_id = ?''
      [PInt user_id] s = Some (rs', n') \<and> OrderRecord_all rs' = Inl e' \<longrightarrow>
    map_option fst (get_orders_by_user cfg drv user_id s) = Some (Inl e'))"
  using UserRecord_init_bad[of r] OrderRecord_init_bad[of r]
    UserRecord_init_ok[of r] OrderRecord_init_ok[of r]
  by (auto simp: get_user_by_id_answer get_orders_by_user_answer)

theorem record_init_checks_columns_witness:
  "set (map fst short_row) \<noteq> set UserRecord_fields \<and>
   UserRecord_init short_row = Inl TypeError \<and>
   set (map fst short_row) \<noteq> set OrderRecord_fields \<and>
   OrderRecord_init short_row = Inl TypeError \<and>
   driver_answer cfg2 short_driver
      ''SELECT id, username, email, password_hash, is_active FROM users WHERE id = ?''
      [PInt 1] (boot ()) = Some (short_row # [], - 1) \<and>
   map_option fst (get_user_by_id cfg2 short_driver 1 (boot ())) = Some (Inl TypeError) \<and>
   driver_answer cfg2 short_driver
      ''SELECT id, user_id, total_amount, status, created_at FROM orders WHERE user_id = ?''
      [PInt 1] (boot ()) = Some ([short_row], - 1) \<and>
   OrderRecord_all [short_row] = Inl TypeError \<and>
   map_option fst (get_orders_by_user cfg2 short_driver 1 (boot ())) = Some (Inl TypeError) \<and>
   set (map fst mistyped_row) = set UserRecord_fields \<and>
   (\<exists>u. UserRecord_init mistyped_row = Inr u \<and> u_username u = PInt 5)"
proof -
  note t = record_init_checks_columns[of short_row cfg2 short_driver 1 "boot ()" "[]" "- 1"
      TypeError "[short_row]" "- 1" TypeError]
  note m = record_init_checks_columns[of mistyped_row]
  have u: "UserRecord_init short_row = Inl TypeError"
    and x: "OrderRecord_init short_row = Inl TypeError"
    using t short_row_eval by blast+
  have xs: "OrderRecord_all [short_row] = Inl TypeError" by (simp add: x)
  have g: "map_option fst (get_user_by_id cfg2 short_driver 1 (boot ())) = Some (Inl TypeError)"
    using t short_answers u by blast
  have h: "map_option fst (get_orders_by_user cfg2 short_driver 1 (boot ())) = Some (Inl TypeError)"
    using t short_answers xs by blast
  have k: "set (map fst mistyped_row) = set UserRecord_fields"
    by (simp add: mistyped_row_def UserRecord_fields_def)
  then obtain v where v: "UserRecord_init mistyped_row = Inr v" "UserRecord_of mistyped_row v"
    using m by blast
  have "map_of mistyped_row ''username'' = Some (PInt 5)" by (simp add: mistyped_row_def)
  with v(2) have "u_username v = PInt 5" by (simp add: UserRecord_of_def)
  with v(1) have e: "\<exists>u. UserRecord_init mistyped_row = Inr u \<and> u_username u = PInt 5" by blast
  show ?thesis
    using short_row_eval u x short_answers g xs h k e by (intro conjI) blast+
qed

text \<open>
  C8 as stated fails: a row whose \<open>username\<close> is the integer 5 is not typed as the
  record is annotated, and the mapping returns the record with that value, no error.
\<close>

theorem mistyped_column_counterexample:
  "\<not> row_typed UserRecord_types mistyped_row \<and>
   UserRecord_init mistyped_row =
     Inr \<lparr>u_id = PInt 1, u_username = PInt 5, u_email = PStr ''alice@example.com'',
          u_password_hash = PStr ''x'', u_is_active = PBool True\<rparr>"
  by (simp add: row_typed_def UserRecord_types_def mistyped_row_def UserRecord_init_def
      UserRecord_fields_def)

text \<open>
  C9. Whatever the arguments, the driver calls an accessor leaves in the trace are those
  of before and, when a connection is granted, one call more: the statement text
  written in the accessor, the same for all argument values, with the arguments as its
  positional parameters. No argument reaches the text.
\<close>

theorem sql_text_fixed:
  "calls_of (get_user_by_id cfg drv user_id s) =
     one_call cfg s ''SELECT id, username, email, password_hash, is_active FROM users WHERE id = ?''
       [PInt user_id] \<and>
   calls_of (get_user_by_username cfg drv username s) =
     one_call cfg s ''SELECT id, username, email, password_hash, is_active FROM users WHERE username = ?''
       [PStr username] \<and>
   calls_of (create_user cfg drv username email password_hash s) =
     one_call cfg s ''INSERT INTO users (username, email, password_hash, is_active) VALUES (?, ?, ?, 1)''
       [PStr username, PStr email, PStr password_hash] \<and>
   calls_of (deactivate_user cfg drv user_id s) =
     one_call cfg s ''UPDATE users SET is_active = 0 WHERE id = ?'' [PInt user_id] \<and>
   calls_of (get_orders_by_user cfg drv user_id s) =
     one_call cfg s ''SELECT id, user_id, total_amount, status, created_at FROM orders WHERE user_id = ?''
       [PInt user_id] \<and>
   calls_of (get_order_by_id cfg drv order_id s) =
     one_call cfg s ''SELECT id, user_id, total_amount, status, created_at FROM orders WHERE id = ?''
       [PInt order_id] \<and>
   calls_of (create_order cfg drv user_id total_amount s) =
     one_call cfg s ''INSERT INTO orders (user_id, total_amount, status) VALUES (?, ?, 'pending')''
       [PInt user_id, PFloat total_amount] \<and>
   calls_of (update_order_status cfg drv order_id status s) =
     one_call cfg s ''UPDATE orders SET status = ? WHERE id = ?'' [PStr status, PInt order_id]"
proof -
  have 1: "calls_of (get_user_by_id cfg drv user_id s) =
     one_call cfg s ''SELECT id, username, email, password_hash, is_active FROM users WHERE id = ?''
       [PInt user_id]"
    unfolding execute_calls[of cfg drv, symmetric] get_user_by_id_def
    by (rule calls_of_after) (auto split: sum.splits list.splits)
  have 2: "calls_of (get_user_by_username cfg drv username s) =
     one_call cfg s ''SELECT id, username, email, password_hash, is_active FROM users WHERE username = ?''
       [PStr username]"
    unfolding execute_calls[of cfg drv, symmetric] get_user_by_username_def
    by (rule calls_of_after) (auto split: sum.splits list.splits)
  have 3: "calls_of (create_user cfg drv username email password_hash s) =
     one_call cfg s ''INSERT INTO users (username, email, password_hash, is_active) VALUES (?, ?, ?, 1)''
       [PStr username, PStr email, PStr password_hash]"
    unfolding execute_calls[of cfg drv, symmetric] create_user_def
    by (rule calls_of_after) (auto split: sum.splits list.splits)
  have 4: "calls_of (deactivate_user cfg drv user_id s) =
     one_call cfg s ''UPDATE users SET is_active = 0 WHERE id = ?'' [PInt user_id]"
    unfolding execute_calls[of cfg drv, symmetric] deactivate_user_def
    by (rule calls_of_after) (auto split: sum.splits list.splits)
  have 5: "calls_of (get_orders_by_user cfg drv user_id s) =
     one_call cfg s ''SELECT id, user_id, total_amount, status, created_at FROM orders WHERE user_id = ?''
       [PInt user_id]"
    unfolding execute_calls[of cfg drv, symmetric] get_orders_by_user_def
    by (rule calls_of_after) (auto split: sum.splits list.splits)
  have 6: "calls_of (get_order_by_id cfg drv order_id s) =
     one_call cfg s ''SELECT id, user_id, total_amount, status, created_at FROM orders WHERE id = ?''
       [PInt order_id]"
    unfolding execute_calls[of cfg drv, symmetric] get_order_by_id_def
    by (rule calls_of_after) (auto split: sum.splits list.splits)
  have 7: "calls_of (create_order cfg drv user_id total_amount s) =
     one_call cfg s ''INSERT INTO orders (user_id, total_amount, status) VALUES (?, ?, 'pending')''
       [PInt user_id, PFloat total_amount]"
    unfolding execute_calls[of cfg drv, symmetric] create_order_def
    by (rule calls_of_after) (auto split: sum.splits list.splits)
  have 8: "calls_of (update_order_status cfg drv order_id status s) =
     one_call cfg s ''UPDATE orders SET status = ? WHERE id = ?'' [PStr status, PInt order_id]"
    unfolding execute_calls[of cfg drv, symmetric] update_order_status_def
    by (rule calls_of_after) (auto split: sum.splits list.splits)
  from 1 2 3 4 5 6 7 8 show ?thesis by (intro conjI)
qed

text \<open>
  C10. \<open>close_all\<close> on a pool with no unit of work in flight empties the idle queue,
  closes the connections it held and changes nothing else: the state has no field that
  says the pool is closed. In every state a run reaches afterwards the queue is still
  empty, and an \<open>acquire\<close> waits its five seconds and fails with the \<open>RuntimeError\<close>
  of exhaustion, the same result as on any pool whose queue is empty.
\<close>

theorem closed_pool_looks_exhausted:
  assumes "in_use s = []" and "rtranclp (step drv) (close_all s) t"
  shows "close_all s =
           s\<lparr>queue := [],
             pending := (\<lambda>c. if c \<in> set (queue s) then None else pending s c),
             trace := trace s @ concat (map (\<lambda>c. [EvGet c, EvClose c]) (queue s))\<rparr> \<and>
         queue t = [] \<and>
         acquire body t =
           Some (Inl (RuntimeError POOL_EXHAUSTED),
                 t\<lparr>trace := trace t @ [EvGetTimeout 5], clock := clock t + 5\<rparr>) \<and>
         (\<forall>u :: 'a state. queue u = [] \<longrightarrow>
            map_option fst (acquire body u) = map_option fst (acquire body t))"
proof -
  have "queue (close_all s) = []" by (subst close_all_eq) simp
  moreover have "in_use (close_all s) = in_use s" by (subst close_all_eq) simp
  ultimately have c: "queue (close_all s) = [] \<and> in_use (close_all s) = []"
    using assms(1) by simp
  have q: "queue t = []" using drained_steps[OF assms(2)] c by simp
  show ?thesis
    using q close_all_eq[of s] by (simp add: acquire_timeout)
qed

theorem closed_pool_looks_exhausted_witness:
  "in_use pool2 = [] \<and>
   rtranclp (step sqlite_run) (close_all pool2) (snd (acquire_enter closed2)) \<and>
   queue (snd (acquire_enter closed2)) = [] \<and>
   acquire insert_order_work (snd (acquire_enter closed2)) =
     Some (Inl (RuntimeError POOL_EXHAUSTED),
           (snd (acquire_enter closed2))
             \<lparr>trace := [EvGet 0, EvClose 0, EvGet 1, EvClose 1, EvGetTimeout 5, EvGetTimeout 5],
              clock := 10\<rparr>)"
proof -
  let ?t = "snd (acquire_enter closed2)"
  have i: "in_use pool2 = []" using pool2_eval by simp
  have r: "rtranclp (step sqlite_run) (close_all pool2) ?t"
    unfolding closed2_def by (rule r_into_rtranclp) (rule step_enter)
  have t: "trace ?t @ [EvGetTimeout 5] =
             [EvGet 0, EvClose 0, EvGet 1, EvClose 1, EvGetTimeout 5, EvGetTimeout 5]"
    and c: "clock ?t + 5 = 10"
    using closed2_eval by (simp_all add: acquire_enter_cases)
  show ?thesis
    using closed_pool_looks_exhausted[OF i r, of insert_order_work] i r
    unfolding t c by blast
qed

end
